theory Spec2Isabelle
  imports Main
begin

section \<open>Python values used by sender.py and receiver.py\<close>

text \<open>
  A Python \<open>str\<close> is a sequence of Unicode code points; a code point is modelled as a
  natural number (at most \<open>0x10FFFF\<close> in a real \<open>str\<close>), a \<open>bytes\<close> object as a list of
  naturals below 256.
\<close>

type_synonym pystr = "nat list"
type_synonym pybytes = "nat list"

text \<open>
  The exceptions the two modules can raise. The three generic \<open>Exception(...)\<close> messages of
  the source are kept apart by constructor, each carrying the values its f-string formats:
  \<^item> \<open>TrackIdTooShort track_id first_index second_index\<close>: receiver.py, line 129;
  \<^item> \<open>FailedToDecodeHex hex_string cause\<close>: receiver.py, line 143;
  \<^item> \<open>NoSongsForWord word\<close>: sender.py, line 108;
  \<^item> \<open>NoSongsForByte byte\<close>: sender.py, line 139.
\<close>

datatype py_exception =
    IndexError
  | ValueError
  | UnicodeDecodeError
  | UnicodeEncodeError
  | TrackIdTooShort pystr int int
  | FailedToDecodeHex pystr py_exception
  | NoSongsForWord pystr
  | NoSongsForByte pystr

text \<open>\<open>isinstance(e, ValueError)\<close>: both Unicode errors are subclasses of \<open>ValueError\<close>.\<close>

fun is_ValueError :: "py_exception \<Rightarrow> bool" where
  "is_ValueError ValueError = True"
| "is_ValueError UnicodeDecodeError = True"
| "is_ValueError UnicodeEncodeError = True"
| "is_ValueError _ = False"

text \<open>\<open>xs[i]\<close> for a Python integer \<open>i\<close>: negative indices count from the end.\<close>

definition py_index :: "'a list \<Rightarrow> int \<Rightarrow> py_exception + 'a" where
  "py_index xs i =
     (let n = int (length xs); k = (if i < 0 then n + i else i)
      in if 0 \<le> k \<and> k < n then Inr (xs ! nat k) else Inl IndexError)"

subsection \<open>Whitespace, \<open>str.split()\<close>, \<open>str.strip\<close>, \<open>str.join\<close>\<close>

text \<open>The code points for which \<open>str.isspace\<close> holds; \<open>split()\<close> and \<open>strip()\<close> use them.\<close>

definition is_space :: "nat \<Rightarrow> bool" where
  "is_space c \<longleftrightarrow>
     (0x09 \<le> c \<and> c \<le> 0x0D) \<or> (0x1C \<le> c \<and> c \<le> 0x20) \<or> c = 0x85 \<or> c = 0xA0 \<or>
     c = 0x1680 \<or> (0x2000 \<le> c \<and> c \<le> 0x200A) \<or> c = 0x2028 \<or> c = 0x2029 \<or>
     c = 0x202F \<or> c = 0x205F \<or> c = 0x3000"

text \<open>
  \<open>s.split()\<close>: the maximal runs of non-whitespace, in order. \<open>cur\<close> is the token being
  read.
\<close>

primrec split_acc :: "pystr \<Rightarrow> pystr \<Rightarrow> pystr list" where
  "split_acc cur [] = (if cur = [] then [] else [cur])"
| "split_acc cur (c # cs) =
     (if is_space c then (if cur = [] then split_acc [] cs else cur # split_acc [] cs)
      else split_acc (cur @ [c]) cs)"

definition py_split :: "pystr \<Rightarrow> pystr list" where
  "py_split s = split_acc [] s"

text \<open>\<open>s.strip(chars)\<close> and \<open>s.strip()\<close>.\<close>

definition py_strip :: "pystr \<Rightarrow> pystr \<Rightarrow> pystr" where
  "py_strip chars s =
     rev (dropWhile (\<lambda>c. c \<in> set chars) (rev (dropWhile (\<lambda>c. c \<in> set chars) s)))"

definition py_strip_ws :: "pystr \<Rightarrow> pystr" where
  "py_strip_ws s = rev (dropWhile is_space (rev (dropWhile is_space s)))"

text \<open>\<open>sep.join(words)\<close>.\<close>

fun py_join :: "pystr \<Rightarrow> pystr list \<Rightarrow> pystr" where
  "py_join sep [] = []"
| "py_join sep [w] = w"
| "py_join sep (w # ws) = w @ sep @ py_join sep ws"

text \<open>The literal \<open>'.,!?;"\''\<close> of both modules: \<open>. , ! ? ; " '\<close>.\<close>

definition punctuation :: pystr where
  "punctuation = [0x2E, 0x2C, 0x21, 0x3F, 0x3B, 0x22, 0x27]"

text \<open>\<open>s.split()[0]\<close>: the first token, or \<open>IndexError\<close> when there is none.\<close>

definition first_token :: "pystr \<Rightarrow> py_exception + pystr" where
  "first_token s = (case py_split s of [] \<Rightarrow> Inl IndexError | t # _ \<Rightarrow> Inr t)"

section \<open>models.py\<close>

record song =
  track_id :: pystr
  name :: pystr
  spotify_url :: pystr

section \<open>receiver.py: the first-word decoder\<close>

text \<open>
  The loop of \<open>decode_first_word_encoding\<close> (lines 105 to 111), with \<open>words\<close> the list
  built so far.
\<close>

fun decode_first_word_loop :: "song list \<Rightarrow> pystr list \<Rightarrow> py_exception + pystr list" where
  "decode_first_word_loop [] words = Inr words"
| "decode_first_word_loop (s # ss) words =
     (if name s = [] then decode_first_word_loop ss words
      else (case first_token (name s) of
              Inl e \<Rightarrow> Inl e
            | Inr t \<Rightarrow>
                (let first_word = py_strip punctuation t
                 in if first_word \<noteq> [] then decode_first_word_loop ss (words @ [first_word])
                    else decode_first_word_loop ss words)))"

definition decode_first_word_encoding :: "song list \<Rightarrow> py_exception + pystr" where
  "decode_first_word_encoding songs =
     (case decode_first_word_loop songs [] of
        Inl e \<Rightarrow> Inl e
      | Inr words \<Rightarrow> Inr (py_join [0x20] words))"

section \<open>Bytes: \<open>bytes.hex\<close>, \<open>bytes.fromhex\<close> and the UTF-8 codec\<close>

text \<open>\<open>b.hex()\<close>: two lower-case hexadecimal digits for each byte.\<close>

definition hex_digit :: "nat \<Rightarrow> nat" where
  "hex_digit n = (if n < 10 then 0x30 + n else 0x57 + n)"

definition bytes_hex :: "pybytes \<Rightarrow> pystr" where
  "bytes_hex bs = concat (map (\<lambda>b. [hex_digit (b div 16), hex_digit (b mod 16)]) bs)"

text \<open>
  \<open>bytes.fromhex(s)\<close>: a string with a non-ASCII character is refused; otherwise the
  string is scanned from the left, ASCII whitespace in front of a byte is skipped, and
  each byte is two hexadecimal digits of either case. Every failure is a \<open>ValueError\<close>.
\<close>

definition hex_value :: "nat \<Rightarrow> nat option" where
  "hex_value c =
     (if 0x30 \<le> c \<and> c \<le> 0x39 then Some (c - 0x30)
      else if 0x61 \<le> c \<and> c \<le> 0x66 then Some (c - 0x57)
      else if 0x41 \<le> c \<and> c \<le> 0x46 then Some (c - 0x37)
      else None)"

definition is_ascii_space :: "nat \<Rightarrow> bool" where
  "is_ascii_space c \<longleftrightarrow> (0x09 \<le> c \<and> c \<le> 0x0D) \<or> c = 0x20"

fun fromhex_scan :: "pystr \<Rightarrow> py_exception + pybytes" where
  "fromhex_scan [] = Inr []"
| "fromhex_scan (c # cs) =
     (if is_ascii_space c then fromhex_scan cs
      else (case hex_value c of
              None \<Rightarrow> Inl ValueError
            | Some hi \<Rightarrow>
                (case cs of
                   [] \<Rightarrow> Inl ValueError
                 | d # ds \<Rightarrow>
                     (case hex_value d of
                        None \<Rightarrow> Inl ValueError
                      | Some lo \<Rightarrow>
                          (case fromhex_scan ds of
                             Inl e \<Rightarrow> Inl e
                           | Inr r \<Rightarrow> Inr ((hi * 16 + lo) # r))))))"

definition bytes_fromhex :: "pystr \<Rightarrow> py_exception + pybytes" where
  "bytes_fromhex s = (if \<exists>c \<in> set s. 128 \<le> c then Inl ValueError else fromhex_scan s)"

text \<open>
  \<open>s.encode("utf-8")\<close> with the default strict error handler: a surrogate code point
  cannot be encoded.
\<close>

definition utf8_encode_char :: "nat \<Rightarrow> py_exception + pybytes" where
  "utf8_encode_char c =
     (if c < 0x80 then Inr [c]
      else if c < 0x800 then Inr [0xC0 + c div 64, 0x80 + c mod 64]
      else if 0xD800 \<le> c \<and> c \<le> 0xDFFF then Inl UnicodeEncodeError
      else if c < 0x10000 then
        Inr [0xE0 + c div 4096, 0x80 + c div 64 mod 64, 0x80 + c mod 64]
      else
        Inr [0xF0 + c div 262144, 0x80 + c div 4096 mod 64, 0x80 + c div 64 mod 64,
             0x80 + c mod 64])"

fun utf8_encode :: "pystr \<Rightarrow> py_exception + pybytes" where
  "utf8_encode [] = Inr []"
| "utf8_encode (c # cs) =
     (case utf8_encode_char c of
        Inl e \<Rightarrow> Inl e
      | Inr bs \<Rightarrow> (case utf8_encode cs of Inl e \<Rightarrow> Inl e | Inr r \<Rightarrow> Inr (bs @ r)))"

text \<open>
  \<open>b.decode("utf-8")\<close> with the strict error handler: truncated sequences, stray
  continuation bytes, overlong forms, surrogates and values above \<open>0x10FFFF\<close> are all
  refused with \<open>UnicodeDecodeError\<close>.
\<close>

definition is_cont :: "nat \<Rightarrow> bool" where
  "is_cont b \<longleftrightarrow> 0x80 \<le> b \<and> b \<le> 0xBF"

definition cons_char :: "nat \<Rightarrow> py_exception + pystr \<Rightarrow> py_exception + pystr" where
  "cons_char c r = (case r of Inl e \<Rightarrow> Inl e | Inr cs \<Rightarrow> Inr (c # cs))"

fun utf8_decode :: "pybytes \<Rightarrow> py_exception + pystr" where
  "utf8_decode [] = Inr []"
| "utf8_decode (b0 # bs) =
     (if b0 < 0x80 then cons_char b0 (utf8_decode bs)
      else if 0xC2 \<le> b0 \<and> b0 \<le> 0xDF then
        (case bs of
           b1 # r \<Rightarrow>
             if is_cont b1
             then cons_char ((b0 - 0xC0) * 64 + (b1 - 0x80)) (utf8_decode r)
             else Inl UnicodeDecodeError
         | _ \<Rightarrow> Inl UnicodeDecodeError)
      else if 0xE0 \<le> b0 \<and> b0 \<le> 0xEF then
        (case bs of
           b1 # b2 # r \<Rightarrow>
             (let c = (b0 - 0xE0) * 4096 + (b1 - 0x80) * 64 + (b2 - 0x80)
              in if is_cont b1 \<and> is_cont b2 \<and> 0x800 \<le> c \<and> \<not> (0xD800 \<le> c \<and> c \<le> 0xDFFF)
                 then cons_char c (utf8_decode r)
                 else Inl UnicodeDecodeError)
         | _ \<Rightarrow> Inl UnicodeDecodeError)
      else if 0xF0 \<le> b0 \<and> b0 \<le> 0xF4 then
        (case bs of
           b1 # b2 # b3 # r \<Rightarrow>
             (let c = (b0 - 0xF0) * 262144 + (b1 - 0x80) * 4096 + (b2 - 0x80) * 64 + (b3 - 0x80)
              in if is_cont b1 \<and> is_cont b2 \<and> is_cont b3 \<and> 0x10000 \<le> c \<and> c \<le> 0x10FFFF
                 then cons_char c (utf8_decode r)
                 else Inl UnicodeDecodeError)
         | _ \<Rightarrow> Inl UnicodeDecodeError)
      else Inl UnicodeDecodeError)"

section \<open>receiver.py: the hex decoder\<close>

text \<open>
  The loop of \<open>decode_hex_encoding\<close> (lines 124 to 135); \<open>hex_bytes\<close> is the list built so
  far. The two characters are read left to right, as \<open>track_id[first_index] +
  track_id[second_index]\<close> evaluates.
\<close>

fun decode_hex_loop :: "song list \<Rightarrow> int \<Rightarrow> int \<Rightarrow> pystr list \<Rightarrow> py_exception + pystr list" where
  "decode_hex_loop [] first_index second_index hex_bytes = Inr hex_bytes"
| "decode_hex_loop (s # ss) first_index second_index hex_bytes =
     (if int (length (track_id s)) \<le> max first_index second_index
      then Inl (TrackIdTooShort (track_id s) first_index second_index)
      else (case py_index (track_id s) first_index of
              Inl e \<Rightarrow> Inl e
            | Inr a \<Rightarrow>
                (case py_index (track_id s) second_index of
                   Inl e \<Rightarrow> Inl e
                 | Inr b \<Rightarrow> decode_hex_loop ss first_index second_index (hex_bytes @ [[a, b]]))))"

text \<open>The body of the \<open>try\<close> (lines 140 and 141).\<close>

definition decode_hex_string :: "pystr \<Rightarrow> py_exception + pystr" where
  "decode_hex_string hex_string =
     (case bytes_fromhex hex_string of
        Inl e \<Rightarrow> Inl e
      | Inr decoded_bytes \<Rightarrow> utf8_decode decoded_bytes)"

text \<open>
  \<open>decode_hex_encoding\<close>; the handler \<open>except ValueError as e\<close> catches what is a
  \<open>ValueError\<close> and lets anything else through.
\<close>

definition decode_hex_encoding :: "song list \<Rightarrow> int \<Rightarrow> int \<Rightarrow> py_exception + pystr" where
  "decode_hex_encoding songs first_index second_index =
     (case decode_hex_loop songs first_index second_index [] of
        Inl e \<Rightarrow> Inl e
      | Inr hex_bytes \<Rightarrow>
          (let hex_string = concat hex_bytes
           in (case decode_hex_string hex_string of
                 Inl e \<Rightarrow> if is_ValueError e then Inl (FailedToDecodeHex hex_string e) else Inl e
               | Inr message \<Rightarrow> Inr message)))"

section \<open>sender.py: randomness\<close>

text \<open>
  \<open>random.choice(seq)\<close> is \<open>seq[randbelow(len(seq))]\<close>, and \<open>IndexError\<close> on an empty
  sequence. The generator is a parameter: \<open>rnd k\<close> is the raw value drawn by the \<open>k\<close>-th
  call, so that quantifying over \<open>rnd\<close> covers every outcome of every call.
\<close>

definition random_choice :: "(nat \<Rightarrow> nat) \<Rightarrow> nat \<Rightarrow> 'a list \<Rightarrow> py_exception + 'a" where
  "random_choice rnd k xs =
     (if xs = [] then Inl IndexError else Inr (xs ! (rnd k mod length xs)))"

section \<open>sender.py: the hex encoder\<close>

text \<open>
  A row of \<open>dataset.csv\<close> as \<open>csv.DictReader\<close> yields it, reduced to the two columns the
  encoder reads, \<open>track_id\<close> and \<open>track_name\<close>. The file's contents are a parameter.
\<close>

record dataset_row =
  row_track_id :: pystr
  row_track_name :: pystr

text \<open>
  The condition of the comprehension at lines 124 and 125,
  \<open>row['track_id'][first_index] == byte[0] and row['track_id'][second_index] == byte[1]\<close>,
  with Python's evaluation order and the short circuit of \<open>and\<close>.
\<close>

definition row_matches :: "dataset_row \<Rightarrow> int \<Rightarrow> int \<Rightarrow> pystr \<Rightarrow> py_exception + bool" where
  "row_matches row first_index second_index byte =
     (case py_index (row_track_id row) first_index of
        Inl e \<Rightarrow> Inl e
      | Inr a \<Rightarrow>
          (case py_index byte 0 of
             Inl e \<Rightarrow> Inl e
           | Inr b0 \<Rightarrow>
               if a \<noteq> b0 then Inr False
               else (case py_index (row_track_id row) second_index of
                       Inl e \<Rightarrow> Inl e
                     | Inr c \<Rightarrow>
                         (case py_index byte 1 of
                            Inl e \<Rightarrow> Inl e
                          | Inr b1 \<Rightarrow> Inr (c = b1)))))"

fun matched_songs :: "dataset_row list \<Rightarrow> int \<Rightarrow> int \<Rightarrow> pystr \<Rightarrow> py_exception + dataset_row list" where
  "matched_songs [] first_index second_index byte = Inr []"
| "matched_songs (row # rows) first_index second_index byte =
     (case row_matches row first_index second_index byte of
        Inl e \<Rightarrow> Inl e
      | Inr keep \<Rightarrow>
          (case matched_songs rows first_index second_index byte of
             Inl e \<Rightarrow> Inl e
           | Inr ms \<Rightarrow> Inr (if keep then row # ms else ms)))"

text \<open>\<open>[hex_message[i:i+2] for i in range(0, len(hex_message), 2)]\<close>.\<close>

fun hex_chunks :: "pystr \<Rightarrow> pystr list" where
  "hex_chunks [] = []"
| "hex_chunks [a] = [[a]]"
| "hex_chunks (a # b # r) = [a, b] # hex_chunks r"

definition track_url_prefix :: pystr where
  "track_url_prefix = map of_char ''https://open.spotify.com/track/''"

definition song_of_row :: "dataset_row \<Rightarrow> song" where
  "song_of_row song_data =
     \<lparr>track_id = row_track_id song_data, name = row_track_name song_data,
      spotify_url = track_url_prefix @ row_track_id song_data\<rparr>"

text \<open>
  The loop of \<open>get_hex_encoding_songs\<close> (lines 121 to 139): \<open>k\<close> counts the calls of
  \<open>random.choice\<close> made so far, \<open>songs\<close> is the list built so far.
\<close>

fun hex_encoding_loop ::
  "dataset_row list \<Rightarrow> (nat \<Rightarrow> nat) \<Rightarrow> nat \<Rightarrow> int \<Rightarrow> int \<Rightarrow> pystr list \<Rightarrow> song list
   \<Rightarrow> py_exception + song list" where
  "hex_encoding_loop dataset rnd k first_index second_index [] songs = Inr songs"
| "hex_encoding_loop dataset rnd k first_index second_index (byte # bytes) songs =
     (case matched_songs dataset first_index second_index byte of
        Inl e \<Rightarrow> Inl e
      | Inr ms \<Rightarrow>
          if ms \<noteq> [] then
            (case random_choice rnd k ms of
               Inl e \<Rightarrow> Inl e
             | Inr song_data \<Rightarrow>
                 hex_encoding_loop dataset rnd (Suc k) first_index second_index bytes
                   (songs @ [song_of_row song_data]))
          else Inl (NoSongsForByte byte))"

definition get_hex_encoding_songs ::
  "dataset_row list \<Rightarrow> (nat \<Rightarrow> nat) \<Rightarrow> nat \<Rightarrow> pystr \<Rightarrow> int \<Rightarrow> int \<Rightarrow> py_exception + song list" where
  "get_hex_encoding_songs dataset rnd k message first_index second_index =
     (case utf8_encode message of
        Inl e \<Rightarrow> Inl e
      | Inr bs \<Rightarrow>
          hex_encoding_loop dataset rnd k first_index second_index
            (hex_chunks (bytes_hex bs)) [])"

section \<open>sender.py: the resolver and the first-word encoder\<close>

text \<open>
  \<open>s.lower()\<close>: on a string of ASCII characters it maps \<open>A\<close> to \<open>Z\<close> onto \<open>a\<close> to \<open>z\<close>. The
  Unicode case mapping of a string with a non-ASCII character is a table of the Python
  runtime, taken as the parameter \<open>ulower\<close>.
\<close>

definition ascii_lower :: "nat \<Rightarrow> nat" where
  "ascii_lower c = (if 0x41 \<le> c \<and> c \<le> 0x5A then c + 32 else c)"

definition py_lower :: "(pystr \<Rightarrow> pystr) \<Rightarrow> pystr \<Rightarrow> pystr" where
  "py_lower ulower s = (if \<forall>c \<in> set s. c < 128 then map ascii_lower s else ulower s)"

text \<open>
  What the resolver reads and changes: the cache file \<open>.cache\<close> (a JSON object from word
  to list of song records), the number of \<open>random.choice\<close> calls made, and the queries
  sent to \<open>sp.search\<close>, oldest first.
\<close>

record resolver_state =
  cache :: "pystr \<rightharpoonup> song list"
  rng :: nat
  searches :: "pystr list"

text \<open>An item of \<open>results['tracks']['items']\<close>: \<open>id\<close>, \<open>name\<close>, \<open>external_urls.spotify\<close>.\<close>

record track_item =
  item_id :: pystr
  item_name :: pystr
  item_url :: pystr

text \<open>Line 64: \<open>word.strip('.,!?;"\'').split()[0]\<close>.\<close>

definition normalize_word :: "pystr \<Rightarrow> py_exception + pystr" where
  "normalize_word word = first_token (py_strip punctuation word)"

text \<open>
  The comprehension at lines 80 to 82: an item is kept when
  \<open>song['name'].split()[0].strip('.,!?;"\'').lower() == word.lower()\<close>.
\<close>

fun matching_songs :: "(pystr \<Rightarrow> pystr) \<Rightarrow> track_item list \<Rightarrow> pystr \<Rightarrow> py_exception + song list" where
  "matching_songs ulower [] word = Inr []"
| "matching_songs ulower (item # items) word =
     (case first_token (item_name item) of
        Inl e \<Rightarrow> Inl e
      | Inr t \<Rightarrow>
          (case matching_songs ulower items word of
             Inl e \<Rightarrow> Inl e
           | Inr songs \<Rightarrow>
               Inr (if py_lower ulower (py_strip punctuation t) = py_lower ulower word
                    then \<lparr>track_id = item_id item, name = item_name item,
                          spotify_url = item_url item\<rparr> # songs
                    else songs)))"

definition search_query :: "pystr \<Rightarrow> pystr" where
  "search_query word = [0x22] @ word @ [0x22]"

text \<open>
  \<open>get_song_from_first_word\<close>. The search collaborator is the parameter \<open>sp\<close>: \<open>sp n q\<close> is
  what \<open>sp.search\<close> answers to the query \<open>q\<close> when \<open>n\<close> queries were sent before, \<open>None\<close>
  for a falsy answer and otherwise the items of the answer. The result is the exception
  raised, or the returned value (\<open>None\<close> or a song) with the state left behind.
  \<open>load_song_cache\<close> and \<open>save_song_cache\<close> read and write the whole JSON object, so the
  file is modelled by the map it holds; a missing or empty file is the empty map. A
  failure of the collaborator or of the file system is not modelled.
\<close>

definition get_song_from_first_word ::
  "(pystr \<Rightarrow> pystr) \<Rightarrow> (nat \<Rightarrow> pystr \<Rightarrow> track_item list option) \<Rightarrow> (nat \<Rightarrow> nat) \<Rightarrow> resolver_state
   \<Rightarrow> pystr \<Rightarrow> py_exception + (song option \<times> resolver_state)" where
  "get_song_from_first_word ulower sp rnd st word0 =
     (case normalize_word word0 of
        Inl e \<Rightarrow> Inl e
      | Inr word \<Rightarrow>
          (case cache st word of
             Some (c # cs) \<Rightarrow>
               (case random_choice rnd (rng st) (c # cs) of
                  Inl e \<Rightarrow> Inl e
                | Inr s \<Rightarrow> Inr (Some s, st\<lparr>rng := Suc (rng st)\<rparr>))
           | _ \<Rightarrow>
               (let results = sp (length (searches st)) (search_query word);
                    st1 = st\<lparr>searches := searches st @ [search_query word]\<rparr>
                in (case results of
                      None \<Rightarrow> Inr (None, st1)
                    | Some items \<Rightarrow>
                        (case matching_songs ulower items word of
                           Inl e \<Rightarrow> Inl e
                         | Inr songs \<Rightarrow>
                             if songs = [] then Inr (None, st1)
                             else (case random_choice rnd (rng st1) songs of
                                     Inl e \<Rightarrow> Inl e
                                   | Inr s \<Rightarrow>
                                       Inr (Some s,
                                            st1\<lparr>cache := (cache st1)(word \<mapsto> songs),
                                                rng := Suc (rng st1)\<rparr>)))))))"

text \<open>
  The loop of \<open>get_first_word_encoding_songs\<close> (lines 102 to 108); \<open>songs\<close> is the list
  built so far.
\<close>

fun first_word_encoding_loop ::
  "(pystr \<Rightarrow> pystr) \<Rightarrow> (nat \<Rightarrow> pystr \<Rightarrow> track_item list option) \<Rightarrow> (nat \<Rightarrow> nat) \<Rightarrow> resolver_state
   \<Rightarrow> pystr list \<Rightarrow> song list \<Rightarrow> py_exception + (song list \<times> resolver_state)" where
  "first_word_encoding_loop ulower sp rnd st [] songs = Inr (songs, st)"
| "first_word_encoding_loop ulower sp rnd st (word # ws) songs =
     (case get_song_from_first_word ulower sp rnd st (py_strip_ws word) of
        Inl e \<Rightarrow> Inl e
      | Inr (None, st') \<Rightarrow> Inl (NoSongsForWord word)
      | Inr (Some s, st') \<Rightarrow> first_word_encoding_loop ulower sp rnd st' ws (songs @ [s]))"

definition get_first_word_encoding_songs ::
  "(pystr \<Rightarrow> pystr) \<Rightarrow> (nat \<Rightarrow> pystr \<Rightarrow> track_item list option) \<Rightarrow> (nat \<Rightarrow> nat) \<Rightarrow> resolver_state
   \<Rightarrow> pystr \<Rightarrow> py_exception + (song list \<times> resolver_state)" where
  "get_first_word_encoding_songs ulower sp rnd st message =
     first_word_encoding_loop ulower sp rnd st (py_split message) []"

section \<open>The hex decoder as the specification words it\<close>

text \<open>
  The decoder of section 4.2 of the specification, written from its words and not from
  the code, for comparison with \<open>decode_hex_encoding\<close>: every song gives the
  two-character hex byte made of its \<open>track_id\<close> at \<open>first_index\<close> and at
  \<open>second_index\<close>, the bytes are taken in song order, one byte for each song, and the
  byte sequence is decoded as UTF-8. The result is \<open>None\<close> when a \<open>track_id\<close> is too
  short, when a pair is not a hex byte, or when the bytes are not UTF-8.
\<close>

definition hex_pair_byte :: "nat \<Rightarrow> nat \<Rightarrow> nat option" where
  "hex_pair_byte a b =
     (case hex_value a of
        None \<Rightarrow> None
      | Some hi \<Rightarrow> (case hex_value b of None \<Rightarrow> None | Some lo \<Rightarrow> Some (hi * 16 + lo)))"

definition spec_hex_decode :: "song list \<Rightarrow> nat \<Rightarrow> nat \<Rightarrow> pystr option" where
  "spec_hex_decode songs first_index second_index =
     (if \<exists>s \<in> set songs. length (track_id s) \<le> max first_index second_index then None
      else (case those (map (\<lambda>s. hex_pair_byte (track_id s ! first_index)
                                   (track_id s ! second_index)) songs) of
              None \<Rightarrow> None
            | Some bs \<Rightarrow> (case utf8_decode bs of Inl e \<Rightarrow> None | Inr text \<Rightarrow> Some text)))"

text \<open>What a call returns, \<open>None\<close> when it raises.\<close>

definition returned :: "py_exception + 'a \<Rightarrow> 'a option" where
  "returned r = (case r of Inl e \<Rightarrow> None | Inr v \<Rightarrow> Some v)"

section \<open>Auxiliary predicates\<close>

text \<open>
  A song carries a two-character hex byte at the two indices: the condition of the
  encoder's comprehension, read on the song.
\<close>

definition carries :: "int \<Rightarrow> int \<Rightarrow> pystr \<Rightarrow> song \<Rightarrow> bool" where
  "carries first_index second_index byte s \<longleftrightarrow>
     length byte = 2 \<and> py_index (track_id s) first_index = py_index byte 0 \<and>
     py_index (track_id s) second_index = py_index byte 1"

text \<open>
  The leading word of a track name, \<open>name.split()[0].strip('.,!?;"\'')\<close>: the expression
  of receiver.py, line 109, and of the comprehension of sender.py, line 82.
\<close>

definition leading_word :: "pystr \<Rightarrow> py_exception + pystr" where
  "leading_word nm =
     (case first_token nm of Inl e \<Rightarrow> Inl e | Inr t \<Rightarrow> Inr (py_strip punctuation t))"

section \<open>The UTF-8 codec round trip\<close>











lemma carries_pair:
  "carries i j byte s \<longleftrightarrow>
     (\<exists>a b. byte = [a, b] \<and> py_index (track_id s) i = Inr a \<and> py_index (track_id s) j = Inr b)"
proof
  assume c: "carries i j byte s"
  then obtain a b where "byte = [a, b]"
    by (cases byte; cases "tl byte") (auto simp: carries_def)
  with c show "\<exists>a b. byte = [a, b] \<and> py_index (track_id s) i = Inr a \<and> py_index (track_id s) j = Inr b"
    by (simp add: carries_def py_index_def)
next
  assume "\<exists>a b. byte = [a, b] \<and> py_index (track_id s) i = Inr a \<and> py_index (track_id s) j = Inr b"
  then show "carries i j byte s"
    by (auto simp: carries_def py_index_def)
qed


section \<open>UTF-8 on strings\<close>




section \<open>Indexing\<close>


lemma py_index_nat: "n < length xs \<Longrightarrow> py_index xs (int n) = Inr (xs ! n)"
  by (simp add: py_index_def)

lemma py_index_pair: "py_index [a, b] 0 = Inr a" "py_index [a, b] 1 = Inr b"
  by (simp_all add: py_index_def)

section \<open>Hex digits\<close>







lemma hex_chunks_bytes_hex:
  "hex_chunks (bytes_hex bs) = map (\<lambda>b. [hex_digit (b div 16), hex_digit (b mod 16)]) bs"
  by (induction bs) (simp_all add: bytes_hex_def)


section \<open>The hex encoder and decoder loops\<close>

lemma random_choice_mem: "random_choice rnd k xs = Inr x \<Longrightarrow> x \<in> set xs"
  by (auto simp: random_choice_def split: if_splits)

lemma row_matches_pair:
  "row_matches row i j [a, b] = Inr True \<Longrightarrow>
     py_index (row_track_id row) i = Inr a \<and> py_index (row_track_id row) j = Inr b"
  by (auto simp: row_matches_def py_index_pair split: sum.splits if_splits)

lemma matched_songs_sound:
  "matched_songs rows i j byte = Inr ms \<Longrightarrow> row \<in> set ms \<Longrightarrow> row_matches row i j byte = Inr True"
proof (induction rows arbitrary: ms)
  case Nil
  then show ?case by simp
next
  case (Cons r rows)
  then show ?case
    by (auto split: sum.splits if_splits)
qed

text \<open>A song carries the two characters of a chunk at the two indices.\<close>

lemma hex_encoding_loop_carries:
  assumes "hex_encoding_loop dataset rnd k i j chunks acc = Inr songs"
    and "\<forall>ch \<in> set chunks. length ch = 2"
  shows "\<exists>new. songs = acc @ new \<and>
           list_all2 (carries i j) chunks new"
  using assms
proof (induction chunks arbitrary: k acc)
  case Nil
  then show ?case by simp
next
  case (Cons ch chunks)
  from Cons.prems(2) obtain a b where ch: "ch = [a, b]"
    by (cases ch; cases "tl ch") auto
  from Cons.prems(1) obtain ms row where ms: "matched_songs dataset i j ch = Inr ms"
    and row: "random_choice rnd k ms = Inr row"
    and rest: "hex_encoding_loop dataset rnd (Suc k) i j chunks (acc @ [song_of_row row]) = Inr songs"
    by (auto split: sum.splits if_splits)
  from matched_songs_sound [OF ms random_choice_mem [OF row]]
  have "row_matches row i j [a, b] = Inr True" by (simp add: ch)
  then have c: "py_index (track_id (song_of_row row)) i = Inr a"
    "py_index (track_id (song_of_row row)) j = Inr b"
    by (simp_all add: row_matches_pair song_of_row_def)
  from Cons.IH [OF rest] Cons.prems(2) obtain new where
    new: "songs = (acc @ [song_of_row row]) @ new"
    "list_all2 (carries i j) chunks new"
    by auto
  have "carries i j ch (song_of_row row)"
    by (simp add: carries_pair c ch)
  then show ?case
    by (intro exI [of _ "song_of_row row # new"]) (simp add: new)
qed


section \<open>Claims about the hex scheme\<close>



section \<open>Failures of the hex decoder\<close>

lemma fromhex_scan_error: "fromhex_scan s = Inl e \<Longrightarrow> e = ValueError"
  by (induction s arbitrary: e rule: fromhex_scan.induct)
     (auto split: if_splits option.splits list.splits sum.splits)

lemma cons_char_error: "cons_char c r = Inl e \<Longrightarrow> r = Inl e"
  by (cases r) (simp_all add: cons_char_def)

lemma utf8_decode_error: "utf8_decode bs = Inl e \<Longrightarrow> e = UnicodeDecodeError"
proof (induction bs arbitrary: e rule: utf8_decode.induct)
  case 1
  then show ?case by simp
next
  case (2 b0 bs)
  show ?case
  proof (cases "b0 < 0x80")
    case True
    with "2.prems" have "utf8_decode bs = Inl e" by (simp add: cons_char_error)
    with "2.IH"(1) True show ?thesis by simp
  next
    case False
    note one = False
    show ?thesis
    proof (cases "0xC2 \<le> b0 \<and> b0 \<le> 0xDF")
      case True
      with one "2.prems" "2.IH"(2) show ?thesis
        by (auto split: list.splits if_splits dest!: cons_char_error)
    next
      case False
      note two = False
      show ?thesis
      proof (cases "0xE0 \<le> b0 \<and> b0 \<le> 0xEF")
        case True
        with one two "2.prems" "2.IH"(3) show ?thesis
          by (auto simp: Let_def split: list.splits if_splits dest!: cons_char_error)
      next
        case False
        note three = False
        show ?thesis
        proof (cases "0xF0 \<le> b0 \<and> b0 \<le> 0xF4")
          case True
          with one two three "2.prems" "2.IH"(4) show ?thesis
            by (auto simp: Let_def split: list.splits if_splits dest!: cons_char_error)
        next
          case False
          with one two three "2.prems" show ?thesis by (auto split: if_splits)
        qed
      qed
    qed
  qed
qed

lemma decode_hex_string_error:
  "decode_hex_string s = Inl e \<Longrightarrow> e = ValueError \<or> e = UnicodeDecodeError"
  by (auto simp: decode_hex_string_def bytes_fromhex_def split: sum.splits if_splits
      dest: fromhex_scan_error utf8_decode_error)

lemma decode_hex_loop_error:
  "decode_hex_loop songs i j acc = Inl e \<Longrightarrow> e = IndexError \<or> (\<exists>t. e = TrackIdTooShort t i j)"
  by (induction songs arbitrary: acc)
     (auto simp: py_index_def Let_def split: if_splits sum.splits)

lemma py_index_nonneg: "0 \<le> i \<Longrightarrow> i < int (length xs) \<Longrightarrow> py_index xs i = Inr (xs ! nat i)"
  by (simp add: py_index_def)

lemma decode_hex_loop_long:
  assumes "0 \<le> i" "0 \<le> j" "\<forall>s \<in> set songs. max i j < int (length (track_id s))"
  shows "decode_hex_loop songs i j acc
         = Inr (acc @ map (\<lambda>s. [track_id s ! nat i, track_id s ! nat j]) songs)"
  using assms(3)
proof (induction songs arbitrary: acc)
  case Nil
  then show ?case by simp
next
  case (Cons s songs)
  then have "i < int (length (track_id s))" "j < int (length (track_id s))" by simp_all
  with assms(1,2) have "py_index (track_id s) i = Inr (track_id s ! nat i)"
    "py_index (track_id s) j = Inr (track_id s ! nat j)"
    by (simp_all add: py_index_nonneg)
  moreover from Cons.prems have "\<not> int (length (track_id s)) \<le> max i j" by auto
  moreover from Cons.prems have "\<forall>s \<in> set songs. max i j < int (length (track_id s))" by simp
  ultimately show ?case using Cons.IH by (simp del: max_less_iff_conj)
qed

lemma decode_hex_loop_short:
  assumes "0 \<le> i" "0 \<le> j" "\<exists>s \<in> set songs. int (length (track_id s)) \<le> max i j"
  shows "\<exists>t. decode_hex_loop songs i j acc = Inl (TrackIdTooShort t i j)
             \<and> int (length t) \<le> max i j"
  using assms(3)
proof (induction songs arbitrary: acc)
  case Nil
  then show ?case by simp
next
  case (Cons s songs)
  show ?case
  proof (cases "int (length (track_id s)) \<le> max i j")
    case True
    then show ?thesis by simp
  next
    case False
    then have "i < int (length (track_id s))" "j < int (length (track_id s))" by simp_all
    with assms(1,2) have "py_index (track_id s) i = Inr (track_id s ! nat i)"
      "py_index (track_id s) j = Inr (track_id s ! nat j)"
      by (simp_all add: py_index_nonneg)
    moreover from False Cons.prems have "\<exists>s \<in> set songs. int (length (track_id s)) \<le> max i j"
      by simp
    ultimately show ?thesis using Cons.IH False by simp
  qed
qed

section \<open>\<open>bytes.fromhex\<close> on one pair for each song\<close>

lemma fromhex_scan_non_ascii:
  "c \<in> set s \<Longrightarrow> 128 \<le> c \<Longrightarrow> \<exists>e. fromhex_scan s = Inl e"
proof (induction s rule: fromhex_scan.induct)
  case 1
  then show ?case by simp
next
  case (2 d ds)
  show ?case
  proof (cases "is_ascii_space d")
    case True
    with "2.prems" have "c \<in> set ds" by (auto simp: is_ascii_space_def)
    with "2.IH"(1) True "2.prems" show ?thesis by simp
  next
    case False
    show ?thesis
    proof (cases "hex_value d")
      case None
      with False show ?thesis by simp
    next
      case (Some hi)
      then have d: "d < 128" by (auto simp: hex_value_def split: if_splits)
      show ?thesis
      proof (cases ds)
        case Nil
        with False Some show ?thesis by simp
      next
        case (Cons d' ds')
        show ?thesis
        proof (cases "hex_value d'")
          case None
          with False Some Cons show ?thesis by simp
        next
          case lo: (Some lo)
          then have "d' < 128" by (auto simp: hex_value_def split: if_splits)
          with d "2.prems" Cons have "c \<in> set ds'" by auto
          from "2.IH"(2) [OF False Some Cons lo this "2.prems"(2)]
          show ?thesis using False Some Cons lo by auto
        qed
      qed
    qed
  qed
qed

lemma bytes_fromhex_scan: "bytes_fromhex s = fromhex_scan s"
proof (cases "\<exists>c \<in> set s. 128 \<le> c")
  case True
  then obtain e where "fromhex_scan s = Inl e" using fromhex_scan_non_ascii by blast
  with fromhex_scan_error [OF this] True show ?thesis by (simp add: bytes_fromhex_def)
next
  case False
  then show ?thesis by (simp add: bytes_fromhex_def)
qed

lemma fromhex_scan_pair:
  "\<not> is_ascii_space a \<Longrightarrow>
     fromhex_scan (a # b # rest)
     = (case hex_pair_byte a b of
          None \<Rightarrow> Inl ValueError
        | Some v \<Rightarrow> (case fromhex_scan rest of Inl e \<Rightarrow> Inl e | Inr r \<Rightarrow> Inr (v # r)))"
  by (simp add: hex_pair_byte_def split: option.splits)

lemma returned_fromhex_scan_pairs:
  "\<forall>p \<in> set ps. \<not> is_ascii_space (fst p) \<Longrightarrow>
     returned (fromhex_scan (concat (map (\<lambda>(a, b). [a, b]) ps)))
     = those (map (\<lambda>(a, b). hex_pair_byte a b) ps)"
proof (induction ps)
  case Nil
  then show ?case by (simp add: returned_def)
next
  case (Cons p ps)
  obtain a b where p: "p = (a, b)" by (cases p)
  with Cons.prems have a: "\<not> is_ascii_space a" by simp
  from Cons have IH: "returned (fromhex_scan (concat (map (\<lambda>(a, b). [a, b]) ps)))
     = those (map (\<lambda>(a, b). hex_pair_byte a b) ps)" by simp
  have c: "concat (map (\<lambda>(a, b). [a, b]) (p # ps)) = a # b # concat (map (\<lambda>(a, b). [a, b]) ps)"
    by (simp add: p)
  show ?case
  proof (cases "hex_pair_byte a b")
    case None
    then show ?thesis
      by (simp only: c fromhex_scan_pair [OF a]) (simp add: p returned_def)
  next
    case (Some v)
    then show ?thesis
      using IH [symmetric]
      by (simp only: c fromhex_scan_pair [OF a])
         (cases "fromhex_scan (concat (map (\<lambda>(a, b). [a, b]) ps))";
          simp add: p returned_def split: option.splits)
  qed
qed

text \<open>
  Claim C5, as stated: for every song list and all indices the hex decoder returns what
  \<open>spec_hex_decode\<close> returns, one byte for each song. It fails on a song whose
  characters at the two indices are spaces: \<open>bytes.fromhex\<close> skips them, so three songs
  carrying \<open>48\<close>, two spaces and \<open>69\<close> decode to the two letters \<open>Hi\<close>.
\<close>

theorem hex_decode_skips_whitespace_counterexample:
  "returned (decode_hex_encoding
       [\<lparr>track_id = map of_char ''48'', name = [], spotify_url = []\<rparr>,
        \<lparr>track_id = map of_char ''  '', name = [], spotify_url = []\<rparr>,
        \<lparr>track_id = map of_char ''69'', name = [], spotify_url = []\<rparr>] 0 1)
     = Some (map of_char ''Hi'')
   \<and> spec_hex_decode
       [\<lparr>track_id = map of_char ''48'', name = [], spotify_url = []\<rparr>,
        \<lparr>track_id = map of_char ''  '', name = [], spotify_url = []\<rparr>,
        \<lparr>track_id = map of_char ''69'', name = [], spotify_url = []\<rparr>] 0 1
     = None"
  by code_simp

text \<open>
  Claim C5, amended: when no song has an ASCII whitespace character at \<open>first_index\<close> of
  its \<open>track_id\<close>, the hex decoder returns exactly what \<open>spec_hex_decode\<close> returns: the
  UTF-8 decoding of the bytes read from the songs, one byte for each song, in song
  order; and it returns nothing exactly when \<open>spec_hex_decode\<close> gives nothing.
\<close>

theorem hex_decode_refines_spec:
  assumes "\<forall>s \<in> set songs. i < length (track_id s) \<longrightarrow> \<not> is_ascii_space (track_id s ! i)"
  shows "returned (decode_hex_encoding songs (int i) (int j)) = spec_hex_decode songs i j"
proof -
  have mx: "max (int i) (int j) = int (max i j)" by (simp add: of_nat_max)
  show ?thesis
  proof (cases "\<exists>s \<in> set songs. length (track_id s) \<le> max i j")
    case True
    then have "\<exists>s \<in> set songs. int (length (track_id s)) \<le> max (int i) (int j)"
      by (auto simp: mx)
    from decode_hex_loop_short [OF _ _ this, of "[]"]
    obtain t where "decode_hex_loop songs (int i) (int j) [] = Inl (TrackIdTooShort t (int i) (int j))"
      by auto
    with True show ?thesis
      by (simp add: decode_hex_encoding_def returned_def spec_hex_decode_def)
  next
    case False
    then have long: "\<forall>s \<in> set songs. max (int i) (int j) < int (length (track_id s))"
      by (auto simp: mx)
    let ?ps = "map (\<lambda>s. (track_id s ! i, track_id s ! j)) songs"
    have hs: "map (\<lambda>s. [track_id s ! i, track_id s ! j]) songs = map (\<lambda>(a, b). [a, b]) ?ps"
      by (simp add: comp_def)
    have bs: "map (\<lambda>s. hex_pair_byte (track_id s ! i) (track_id s ! j)) songs
              = map (\<lambda>(a, b). hex_pair_byte a b) ?ps"
      by (simp add: comp_def)
    from False assms have "\<forall>p \<in> set ?ps. \<not> is_ascii_space (fst p)"
      by auto
    from returned_fromhex_scan_pairs [OF this]
    have scan: "returned (fromhex_scan (concat (map (\<lambda>s. [track_id s ! i, track_id s ! j]) songs)))
          = those (map (\<lambda>s. hex_pair_byte (track_id s ! i) (track_id s ! j)) songs)"
      by (simp only: hs bs)
    have loop: "decode_hex_loop songs (int i) (int j) []
          = Inr (map (\<lambda>s. [track_id s ! i, track_id s ! j]) songs)"
      using decode_hex_loop_long [OF _ _ long, of "[]"] by simp
    show ?thesis
    proof (cases "fromhex_scan (concat (map (\<lambda>s. [track_id s ! i, track_id s ! j]) songs))")
      case (Inl e)
      with scan [symmetric] fromhex_scan_error [OF Inl] False show ?thesis
        by (simp add: decode_hex_encoding_def loop decode_hex_string_def bytes_fromhex_scan
            returned_def spec_hex_decode_def)
    next
      case (Inr bytes)
      with scan [symmetric] False show ?thesis
        by (cases "utf8_decode bytes")
           (auto simp: decode_hex_encoding_def loop decode_hex_string_def bytes_fromhex_scan
            returned_def spec_hex_decode_def dest: utf8_decode_error)
    qed
  qed
qed

theorem hex_decode_refines_spec_witness:
  "returned (decode_hex_encoding
       [\<lparr>track_id = map of_char ''aaaaa4aa8'', name = [], spotify_url = []\<rparr>,
        \<lparr>track_id = map of_char ''aaaaa6aa9'', name = [], spotify_url = []\<rparr>] 5 8)
     = Some (map of_char ''Hi'')
   \<and> spec_hex_decode
       [\<lparr>track_id = map of_char ''aaaaa4aa8'', name = [], spotify_url = []\<rparr>,
        \<lparr>track_id = map of_char ''aaaaa6aa9'', name = [], spotify_url = []\<rparr>] 5 8
     = Some (map of_char ''Hi'')"
proof -
  have s: "spec_hex_decode
       [\<lparr>track_id = map of_char ''aaaaa4aa8'', name = [], spotify_url = []\<rparr>,
        \<lparr>track_id = map of_char ''aaaaa6aa9'', name = [], spotify_url = []\<rparr>] 5 8
     = Some (map of_char ''Hi'')"
    by code_simp
  have h: "\<forall>s \<in> set [\<lparr>track_id = map of_char ''aaaaa4aa8'', name = [], spotify_url = []\<rparr>,
        \<lparr>track_id = map of_char ''aaaaa6aa9'', name = [], spotify_url = []\<rparr>].
      5 < length (track_id s) \<longrightarrow> \<not> is_ascii_space (track_id s ! 5)"
    by (simp add: is_ascii_space_def)
  from hex_decode_refines_spec [OF h, of 8] s show ?thesis
    by simp
qed

text \<open>
  Claim C6. For indices that are not negative, the hex decoder applied to a list with a
  song whose \<open>track_id\<close> has length at most \<open>max first_index second_index\<close> raises the
  too-short error (for the first such song) and returns nothing; and when every
  \<open>track_id\<close> is longer it never raises that error.
\<close>

theorem decode_hex_truncated_identifier:
  assumes "0 \<le> i" and "0 \<le> j"
  shows "((\<exists>s \<in> set songs. int (length (track_id s)) \<le> max i j) \<longrightarrow>
            (\<exists>t. decode_hex_encoding songs i j = Inl (TrackIdTooShort t i j)
                 \<and> int (length t) \<le> max i j))
         \<and> ((\<forall>s \<in> set songs. max i j < int (length (track_id s))) \<longrightarrow>
            (\<forall>t a b. decode_hex_encoding songs i j \<noteq> Inl (TrackIdTooShort t a b)))"
proof (intro conjI impI)
  assume "\<exists>s \<in> set songs. int (length (track_id s)) \<le> max i j"
  from decode_hex_loop_short [OF assms this, of "[]"]
  show "\<exists>t. decode_hex_encoding songs i j = Inl (TrackIdTooShort t i j) \<and> int (length t) \<le> max i j"
    by (auto simp: decode_hex_encoding_def)
next
  assume "\<forall>s \<in> set songs. max i j < int (length (track_id s))"
  from decode_hex_loop_long [OF assms this, of "[]"]
  show "\<forall>t a b. decode_hex_encoding songs i j \<noteq> Inl (TrackIdTooShort t a b)"
    by (auto simp: decode_hex_encoding_def Let_def split: sum.splits if_splits
        dest: decode_hex_string_error)
qed

theorem decode_hex_truncated_identifier_witness:
  "decode_hex_encoding [\<lparr>track_id = map of_char ''abcdef'', name = [], spotify_url = []\<rparr>] 5 8
     = Inl (TrackIdTooShort (map of_char ''abcdef'') 5 8)
   \<and> (\<exists>t. decode_hex_encoding [\<lparr>track_id = map of_char ''abcdef'', name = [], spotify_url = []\<rparr>] 5 8
           = Inl (TrackIdTooShort t 5 8) \<and> int (length t) \<le> max 5 8)
   \<and> (\<forall>t a b. decode_hex_encoding
           [\<lparr>track_id = map of_char ''aaaaa4aa8'', name = [], spotify_url = []\<rparr>] 5 8
         \<noteq> Inl (TrackIdTooShort t a b))"
proof -
  have e: "decode_hex_encoding [\<lparr>track_id = map of_char ''abcdef'', name = [], spotify_url = []\<rparr>] 5 8
     = Inl (TrackIdTooShort (map of_char ''abcdef'') 5 8)"
    by (simp add: decode_hex_encoding_def)
  have p: "(0::int) \<le> 5" "(0::int) \<le> 8" by simp_all
  note t = decode_hex_truncated_identifier [OF p]
  have a: "\<exists>t. decode_hex_encoding [\<lparr>track_id = map of_char ''abcdef'', name = [], spotify_url = []\<rparr>] 5 8
           = Inl (TrackIdTooShort t 5 8) \<and> int (length t) \<le> max 5 8"
    using t [of "[\<lparr>track_id = map of_char ''abcdef'', name = [], spotify_url = []\<rparr>]"]
    by simp
  have b: "\<forall>t a b. decode_hex_encoding
           [\<lparr>track_id = map of_char ''aaaaa4aa8'', name = [], spotify_url = []\<rparr>] 5 8
         \<noteq> Inl (TrackIdTooShort t a b)"
    using t [of "[\<lparr>track_id = map of_char ''aaaaa4aa8'', name = [], spotify_url = []\<rparr>]"]
    by simp
  from e a b show ?thesis by (intro conjI)
qed

text \<open>
  Claim C7. Once the loop of the hex decoder has built its list of hex bytes, a failure
  of \<open>bytes.fromhex\<close> on the joined string and a failure of the UTF-8 decoding of the
  bytes are both raised again as the decoding failure that carries the joined hex
  string; no \<open>ValueError\<close> of either kind leaves \<open>decode_hex_encoding\<close> as it is.
\<close>

theorem decode_hex_malformed_payload:
  "(decode_hex_loop songs i j [] = Inr hex_bytes \<longrightarrow>
      (\<forall>e. bytes_fromhex (concat hex_bytes) = Inl e \<longrightarrow>
           decode_hex_encoding songs i j = Inl (FailedToDecodeHex (concat hex_bytes) e))
      \<and> (\<forall>bs e. bytes_fromhex (concat hex_bytes) = Inr bs \<longrightarrow> utf8_decode bs = Inl e \<longrightarrow>
           decode_hex_encoding songs i j = Inl (FailedToDecodeHex (concat hex_bytes) e)))
   \<and> (\<forall>e. decode_hex_encoding songs i j = Inl e \<longrightarrow> \<not> is_ValueError e)"
proof (intro conjI impI allI)
  fix e
  assume "decode_hex_loop songs i j [] = Inr hex_bytes" "bytes_fromhex (concat hex_bytes) = Inl e"
  moreover from this(2) have "e = ValueError"
    by (simp add: bytes_fromhex_scan fromhex_scan_error)
  ultimately show "decode_hex_encoding songs i j = Inl (FailedToDecodeHex (concat hex_bytes) e)"
    by (simp add: decode_hex_encoding_def decode_hex_string_def)
next
  fix bs e
  assume "decode_hex_loop songs i j [] = Inr hex_bytes" "bytes_fromhex (concat hex_bytes) = Inr bs"
    "utf8_decode bs = Inl e"
  moreover from this(3) have "e = UnicodeDecodeError" by (rule utf8_decode_error)
  ultimately show "decode_hex_encoding songs i j = Inl (FailedToDecodeHex (concat hex_bytes) e)"
    by (simp add: decode_hex_encoding_def decode_hex_string_def)
next
  fix e
  assume "decode_hex_encoding songs i j = Inl e"
  then show "\<not> is_ValueError e"
    by (auto simp: decode_hex_encoding_def Let_def split: sum.splits if_splits
        dest!: decode_hex_loop_error)
qed

theorem decode_hex_malformed_payload_witness:
  "decode_hex_encoding [\<lparr>track_id = map of_char ''zz'', name = [], spotify_url = []\<rparr>] 0 1
     = Inl (FailedToDecodeHex (map of_char ''zz'') ValueError)
   \<and> decode_hex_encoding [\<lparr>track_id = map of_char ''ff'', name = [], spotify_url = []\<rparr>] 0 1
     = Inl (FailedToDecodeHex (map of_char ''ff'') UnicodeDecodeError)"
proof -
  have l1: "decode_hex_loop [\<lparr>track_id = map of_char ''zz'', name = [], spotify_url = []\<rparr>] 0 1 []
        = Inr [map of_char ''zz'']"
    by (simp add: py_index_def)
  have f1: "bytes_fromhex (concat [map of_char ''zz'' :: pystr]) = Inl ValueError"
    by code_simp
  have l2: "decode_hex_loop [\<lparr>track_id = map of_char ''ff'', name = [], spotify_url = []\<rparr>] 0 1 []
        = Inr [map of_char ''ff'']"
    by (simp add: py_index_def)
  have f2: "bytes_fromhex (concat [map of_char ''ff'' :: pystr]) = Inr [255]"
    by code_simp
  have u2: "utf8_decode [255] = Inl UnicodeDecodeError"
    by simp
  from decode_hex_malformed_payload
    [of "[\<lparr>track_id = map of_char ''zz'', name = [], spotify_url = []\<rparr>]" 0 1 "[map of_char ''zz'']"]
    l1 f1
  have a: "decode_hex_encoding [\<lparr>track_id = map of_char ''zz'', name = [], spotify_url = []\<rparr>] 0 1
     = Inl (FailedToDecodeHex (concat [map of_char ''zz'']) ValueError)"
    by blast
  from decode_hex_malformed_payload
    [of "[\<lparr>track_id = map of_char ''ff'', name = [], spotify_url = []\<rparr>]" 0 1 "[map of_char ''ff'']"]
    l2 f2 u2
  have b: "decode_hex_encoding [\<lparr>track_id = map of_char ''ff'', name = [], spotify_url = []\<rparr>] 0 1
     = Inl (FailedToDecodeHex (concat [map of_char ''ff'']) UnicodeDecodeError)"
    by blast
  from a b show ?thesis by simp
qed

section \<open>Splitting, stripping and joining\<close>

lemma split_acc_tokens:
  "\<forall>c \<in> set cur. \<not> is_space c \<Longrightarrow> t \<in> set (split_acc cur s) \<Longrightarrow>
     t \<noteq> [] \<and> (\<forall>c \<in> set t. \<not> is_space c)"
proof (induction s arbitrary: cur)
  case Nil
  then show ?case by (auto split: if_splits)
next
  case (Cons c s)
  show ?case
  proof (cases "is_space c")
    case True
    with Cons.prems have "t = cur \<and> cur \<noteq> [] \<or> t \<in> set (split_acc [] s)"
      by (auto split: if_splits)
    then show ?thesis
      using Cons.prems(1) Cons.IH [of "[]"] by auto
  next
    case False
    with Cons.prems have "t \<in> set (split_acc (cur @ [c]) s)" by simp
    moreover from False Cons.prems(1) have "\<forall>d \<in> set (cur @ [c]). \<not> is_space d" by simp
    ultimately show ?thesis using Cons.IH by blast
  qed
qed

lemma py_split_tokens:
  "t \<in> set (py_split s) \<Longrightarrow> t \<noteq> [] \<and> (\<forall>c \<in> set t. \<not> is_space c)"
  using split_acc_tokens [of "[]" t s] by (simp add: py_split_def)

lemma split_acc_word:
  "\<forall>c \<in> set w. \<not> is_space c \<Longrightarrow> split_acc cur (w @ rest) = split_acc (cur @ w) rest"
  by (induction w arbitrary: cur) simp_all

lemma py_split_word: "w \<noteq> [] \<Longrightarrow> \<forall>c \<in> set w. \<not> is_space c \<Longrightarrow> py_split w = [w]"
  using split_acc_word [of w "[]" "[]"] by (simp add: py_split_def)

lemma py_split_Nil: "py_split [] = []"
  by (simp add: py_split_def)

lemma first_token_word:
  "w \<noteq> [] \<Longrightarrow> \<forall>c \<in> set w. \<not> is_space c \<Longrightarrow> first_token w = Inr w"
  by (simp add: first_token_def py_split_word)

lemma split_acc_join:
  assumes "\<forall>w \<in> set ws. w \<noteq> [] \<and> (\<forall>c \<in> set w. \<not> is_space c)"
  shows "split_acc [] (py_join [0x20] ws) = ws"
  using assms
proof (induction ws)
  case Nil
  then show ?case by simp
next
  case (Cons w ws)
  then have w: "w \<noteq> []" "\<forall>c \<in> set w. \<not> is_space c" by simp_all
  show ?case
  proof (cases ws)
    case Nil
    with w show ?thesis by (simp add: py_split_word [unfolded py_split_def])
  next
    case (Cons v vs)
    from Cons.prems Cons.IH have IH: "split_acc [] (py_join [0x20] ws) = ws" by simp
    have "split_acc [] (w @ [0x20] @ py_join [0x20] ws) = split_acc w ([0x20] @ py_join [0x20] ws)"
      using split_acc_word [OF w(2), of "[]"] by simp
    also have "\<dots> = w # split_acc [] (py_join [0x20] ws)"
      using w(1) by (simp add: is_space_def)
    finally show ?thesis using IH Cons by simp
  qed
qed

lemma py_split_join_tokens: "py_split (py_join [0x20] (py_split s)) = py_split s"
  using split_acc_join [of "py_split s"] py_split_tokens [of _ s]
  by (simp add: py_split_def)

lemma dropWhile_none: "\<forall>c \<in> set w. \<not> P c \<Longrightarrow> dropWhile P w = w"
  by (cases w) simp_all

lemma py_strip_free: "\<forall>c \<in> set w. c \<notin> set chars \<Longrightarrow> py_strip chars w = w"
  by (simp add: py_strip_def dropWhile_none)

lemma py_strip_ws_free: "\<forall>c \<in> set w. \<not> is_space c \<Longrightarrow> py_strip_ws w = w"
  by (simp add: py_strip_ws_def dropWhile_none)

lemma py_strip_all:
  assumes "set w \<subseteq> set chars"
  shows "py_strip chars w = []"
proof -
  from assms have d: "dropWhile (\<lambda>c. c \<in> set chars) w = []"
    by (induction w) auto
  show ?thesis unfolding py_strip_def d by simp
qed

lemma set_py_strip_ws: "set (py_strip_ws w) \<subseteq> set w"
  by (auto simp: py_strip_ws_def dest!: set_dropWhileD)

lemma normalize_word_all_punctuation:
  "set w \<subseteq> set punctuation \<Longrightarrow> normalize_word w = Inl IndexError"
  by (simp add: normalize_word_def py_strip_all first_token_def py_split_Nil)

lemma normalize_word_plain:
  assumes "w \<noteq> []" "\<forall>c \<in> set w. \<not> is_space c" "\<forall>c \<in> set w. c \<notin> set punctuation"
  shows "normalize_word w = Inr w"
  using assms by (simp add: normalize_word_def py_strip_free first_token_word)

section \<open>The first-word decoder\<close>

lemma decode_first_word_encoding_Nil: "decode_first_word_encoding [] = Inr []"
  by (simp add: decode_first_word_encoding_def)

lemma decode_first_word_loop_empty_name:
  "name s = [] \<Longrightarrow> decode_first_word_loop (s # ss) words = decode_first_word_loop ss words"
  by simp

lemma leading_word_name: "leading_word nm = Inr w \<Longrightarrow> nm \<noteq> []"
  by (auto simp: leading_word_def first_token_def py_split_Nil split: sum.splits list.splits)

lemma decode_first_word_loop_leading:
  assumes "list_all2 (\<lambda>w s. leading_word (name s) = Inr w \<and> w \<noteq> []) ws songs"
  shows "decode_first_word_loop songs acc = Inr (acc @ ws)"
  using assms
proof (induction ws songs arbitrary: acc rule: list_all2_induct)
  case Nil
  then show ?case by simp
next
  case (Cons w ws s songs)
  from Cons.hyps(1) have n: "name s \<noteq> []" by (auto dest: leading_word_name)
  from Cons.hyps(1) obtain t where t: "first_token (name s) = Inr t" "py_strip punctuation t = w"
    by (auto simp: leading_word_def split: sum.splits)
  from Cons.hyps(1) have "w \<noteq> []" by simp
  with n t show ?case by (simp add: Cons.IH)
qed

section \<open>The first-word encoder\<close>

lemma first_word_encoding_loop_acc:
  "first_word_encoding_loop ulower sp rnd st ws acc
   = (case first_word_encoding_loop ulower sp rnd st ws [] of
        Inl e \<Rightarrow> Inl e
      | Inr (new, st') \<Rightarrow> Inr (acc @ new, st'))"
proof (induction ws arbitrary: st acc)
  case Nil
  then show ?case by simp
next
  case (Cons w ws)
  show ?case
  proof (cases "get_song_from_first_word ulower sp rnd st (py_strip_ws w)")
    case (Inl e)
    then show ?thesis by simp
  next
    case (Inr p)
    obtain r st1 where p: "p = (r, st1)" by (cases p)
    show ?thesis
    proof (cases r)
      case None
      with Inr p show ?thesis by simp
    next
      case (Some s)
      have a: "first_word_encoding_loop ulower sp rnd st1 ws (acc @ [s])
            = (case first_word_encoding_loop ulower sp rnd st1 ws [] of
                 Inl e \<Rightarrow> Inl e
               | Inr (new, st') \<Rightarrow> Inr ((acc @ [s]) @ new, st'))"
        by (rule Cons.IH)
      have b: "first_word_encoding_loop ulower sp rnd st1 ws [s]
            = (case first_word_encoding_loop ulower sp rnd st1 ws [] of
                 Inl e \<Rightarrow> Inl e
               | Inr (new, st') \<Rightarrow> Inr ([s] @ new, st'))"
        by (rule Cons.IH)
      from Inr p Some show ?thesis
        by (simp add: a b split: sum.splits prod.splits)
    qed
  qed
qed

lemma first_word_encoding_loop_length:
  "first_word_encoding_loop ulower sp rnd st ws acc = Inr (songs, st') \<Longrightarrow>
     length songs = length acc + length ws"
proof (induction ws arbitrary: st acc)
  case Nil
  then show ?case by simp
next
  case (Cons w ws)
  from Cons.prems obtain s st1 where
    "first_word_encoding_loop ulower sp rnd st1 ws (acc @ [s]) = Inr (songs, st')"
    by (auto split: sum.splits option.splits prod.splits)
  from Cons.IH [OF this] show ?case by simp
qed

lemma first_word_encoding_loop_append:
  "first_word_encoding_loop ulower sp rnd st (xs @ ys) acc
   = (case first_word_encoding_loop ulower sp rnd st xs acc of
        Inl e \<Rightarrow> Inl e
      | Inr (songs, st1) \<Rightarrow> first_word_encoding_loop ulower sp rnd st1 ys songs)"
  by (induction xs arbitrary: st acc) (auto split: sum.splits option.splits prod.splits)

lemma get_song_all_punctuation:
  assumes "set t \<subseteq> set punctuation"
  shows "get_song_from_first_word ulower sp rnd st (py_strip_ws t) = Inl IndexError"
    and "get_song_from_first_word ulower sp rnd st t = Inl IndexError"
proof -
  from assms set_py_strip_ws [of t] have "set (py_strip_ws t) \<subseteq> set punctuation" by blast
  then show "get_song_from_first_word ulower sp rnd st (py_strip_ws t) = Inl IndexError"
    by (simp add: get_song_from_first_word_def normalize_word_all_punctuation)
  from assms show "get_song_from_first_word ulower sp rnd st t = Inl IndexError"
    by (simp add: get_song_from_first_word_def normalize_word_all_punctuation)
qed

lemma first_word_encoding_loop_fails:
  assumes "t \<in> set ws" "set t \<subseteq> set punctuation"
  shows "\<exists>e. first_word_encoding_loop ulower sp rnd st ws acc = Inl e"
  using assms(1)
proof (induction ws arbitrary: st acc)
  case Nil
  then show ?case by simp
next
  case (Cons w ws)
  show ?case
  proof (cases "w = t")
    case True
    with get_song_all_punctuation(1) [OF assms(2)] show ?thesis by simp
  next
    case False
    with Cons.prems have "t \<in> set ws" by simp
    from Cons.IH [OF this] show ?thesis
      by (auto split: sum.splits option.splits prod.splits)
  qed
qed

section \<open>Claims about the first-word scheme\<close>

text \<open>
  Claim C3 says that the first-word decoder never fails, whitespace-only names
  included, skips songs with an empty name and returns the empty string on the empty
  list. The code skips the empty name and returns the empty string on the empty list
  (the two lemmas of the section on the first-word decoder), but on a song whose name is
  a single space \<open>song.name.split()\<close> is empty and \<open>[0]\<close> raises \<open>IndexError\<close>.
\<close>

theorem decode_first_word_whitespace_name_raises:
  "decode_first_word_encoding
     [\<lparr>track_id = map of_char ''id'', name = [0x20], spotify_url = []\<rparr>]
   = Inl IndexError"
  by (simp add: decode_first_word_encoding_def first_token_def py_split_def is_space_def)

text \<open>
  Claim C10. A word made only of characters of the punctuation set makes the resolver
  raise \<open>IndexError\<close> at its first line, whatever the cache, the search collaborator
  and the generator are. So the first-word encoder never returns a song list for a
  message with such a token, and it raises this \<open>IndexError\<close> when the tokens in front of
  the first such token were resolved.
\<close>

theorem all_punctuation_token_raises:
  assumes "set t \<subseteq> set punctuation"
  shows "get_song_from_first_word ulower sp rnd st t = Inl IndexError
       \<and> (t \<in> set (py_split message) \<longrightarrow>
            (\<exists>e. get_first_word_encoding_songs ulower sp rnd st message = Inl e))
       \<and> (py_split message = pre @ t # post \<longrightarrow>
            first_word_encoding_loop ulower sp rnd st pre [] = Inr (songs, st') \<longrightarrow>
            get_first_word_encoding_songs ulower sp rnd st message = Inl IndexError)"
proof (intro conjI impI)
  show "get_song_from_first_word ulower sp rnd st t = Inl IndexError"
    by (rule get_song_all_punctuation(2) [OF assms])
next
  assume "t \<in> set (py_split message)"
  from first_word_encoding_loop_fails [OF this assms]
  show "\<exists>e. get_first_word_encoding_songs ulower sp rnd st message = Inl e"
    by (simp add: get_first_word_encoding_songs_def)
next
  assume "py_split message = pre @ t # post"
    and "first_word_encoding_loop ulower sp rnd st pre [] = Inr (songs, st')"
  then show "get_first_word_encoding_songs ulower sp rnd st message = Inl IndexError"
    by (simp add: get_first_word_encoding_songs_def first_word_encoding_loop_append
        get_song_all_punctuation(1) [OF assms])
qed

theorem all_punctuation_token_raises_witness:
  "get_song_from_first_word (\<lambda>s. s) (\<lambda>n q. None) (\<lambda>k. 0)
     \<lparr>cache = Map.empty, rng = 0, searches = []\<rparr> (map of_char ''!!'') = Inl IndexError
   \<and> get_first_word_encoding_songs (\<lambda>s. s) (\<lambda>n q. None) (\<lambda>k. 0)
     \<lparr>cache = Map.empty, rng = 0, searches = []\<rparr> (map of_char ''!!'') = Inl IndexError"
proof -
  have p: "set (map of_char ''!!'' :: pystr) \<subseteq> set punctuation"
    by code_simp
  have s: "py_split (map of_char ''!!'') = [] @ map of_char ''!!'' # []"
    by (simp add: py_split_def is_space_def)
  have l: "first_word_encoding_loop (\<lambda>s. s) (\<lambda>n q. None) (\<lambda>k. 0)
     \<lparr>cache = Map.empty, rng = 0, searches = []\<rparr> [] []
     = Inr ([], \<lparr>cache = Map.empty, rng = 0, searches = []\<rparr>)"
    by (rule first_word_encoding_loop.simps(1))
  note t = all_punctuation_token_raises [OF p, of "\<lambda>s. s" "\<lambda>n q. None" "\<lambda>k. 0"
      "\<lparr>cache = Map.empty, rng = 0, searches = []\<rparr>" "map of_char ''!!''" "[]" "[]" "[]"
      "\<lparr>cache = Map.empty, rng = 0, searches = []\<rparr>"]
  from t have a: "get_song_from_first_word (\<lambda>s. s) (\<lambda>n q. None) (\<lambda>k. 0)
     \<lparr>cache = Map.empty, rng = 0, searches = []\<rparr> (map of_char ''!!'') = Inl IndexError"
    by (rule conjunct1)
  from t [THEN conjunct2, THEN conjunct2, rule_format, OF s l] a show ?thesis
    by (intro conjI)
qed

section \<open>Claims about the resolver\<close>

lemma py_strip_punctuated:
  assumes p: "set p \<subseteq> set chars" and q: "set q \<subseteq> set chars"
  shows "py_strip chars (p @ w @ q) = py_strip chars w"
proof -
  let ?P = "\<lambda>c. c \<in> set chars"
  have all: "dropWhile ?P xs = []" if "set xs \<subseteq> set chars" for xs
    using that by (induction xs) auto
  have front: "dropWhile ?P (p @ w @ q) = dropWhile ?P (w @ q)"
    using p by (intro dropWhile_append2) auto
  show ?thesis
  proof (cases "set w \<subseteq> set chars")
    case True
    with q have "set (w @ q) \<subseteq> set chars" by simp
    then have d1: "dropWhile ?P (w @ q) = []" by (rule all)
    from True have d2: "dropWhile ?P w = []" by (rule all)
    show ?thesis unfolding py_strip_def front d1 d2 by (rule refl)
  next
    case False
    then obtain x where "x \<in> set w" "\<not> ?P x" by auto
    then have a: "dropWhile ?P (w @ q) = dropWhile ?P w @ q"
      by (rule dropWhile_append1)
    have b: "dropWhile ?P (rev q @ rev (dropWhile ?P w)) = dropWhile ?P (rev (dropWhile ?P w))"
      using q by (intro dropWhile_append2) auto
    show ?thesis unfolding py_strip_def front a rev_append b by (rule refl)
  qed
qed

lemma matching_songs_lower:
  "py_lower ulower wa = py_lower ulower wb \<Longrightarrow>
     matching_songs ulower items wa = matching_songs ulower items wb"
  by (induction items) (auto split: sum.splits)

section \<open>Claims about the resolver\<close>

text \<open>
  Claim C4, as stated: \<open>Hello,\<close> and \<open>hello\<close> normalize to the identical key. Line 64
  of sender.py strips the punctuation and keeps the case, so the two keys differ.
\<close>

theorem normalize_word_keeps_case_counterexample:
  "normalize_word (map of_char ''Hello,'') = Inr (map of_char ''Hello'')
   \<and> normalize_word (map of_char ''hello'') = Inr (map of_char ''hello'')
   \<and> normalize_word (map of_char ''Hello,'') \<noteq> normalize_word (map of_char ''hello'')"
  by (simp add: normalize_word_def py_strip_def punctuation_def first_token_def py_split_def
      is_space_def)

text \<open>
  Claim C4, amended: word normalization is punctuation-insensitive and keeps the case:
  words that differ only by leading and trailing characters of the punctuation set
  normalize to the same key; and the matching of search results is case-insensitive:
  two normalized words that are equal once lower-cased keep exactly the same search
  results.
\<close>

theorem word_normalization_insensitive:
  "(set p \<subseteq> set punctuation \<longrightarrow> set q \<subseteq> set punctuation \<longrightarrow>
      normalize_word (p @ w @ q) = normalize_word w)
   \<and> (normalize_word a = Inr wa \<longrightarrow> normalize_word b = Inr wb \<longrightarrow>
      py_lower ulower wa = py_lower ulower wb \<longrightarrow>
      matching_songs ulower items wa = matching_songs ulower items wb)"
proof (intro conjI impI)
  assume "set p \<subseteq> set punctuation" "set q \<subseteq> set punctuation"
  then show "normalize_word (p @ w @ q) = normalize_word w"
    by (simp add: normalize_word_def py_strip_punctuated)
next
  assume "py_lower ulower wa = py_lower ulower wb"
  then show "matching_songs ulower items wa = matching_songs ulower items wb"
    by (rule matching_songs_lower)
qed

theorem word_normalization_insensitive_witness:
  "normalize_word (map of_char ''\"Hello,'') = normalize_word (map of_char ''Hello'')
   \<and> matching_songs (\<lambda>s. s)
        [\<lparr>item_id = map of_char ''a1'', item_name = map of_char ''hello World'', item_url = []\<rparr>]
        (map of_char ''Hello'')
     = matching_songs (\<lambda>s. s)
        [\<lparr>item_id = map of_char ''a1'', item_name = map of_char ''hello World'', item_url = []\<rparr>]
        (map of_char ''hello'')"
proof -
  note t = word_normalization_insensitive [of "[0x22]" "[0x2C]" "map of_char ''Hello''"
      "map of_char ''Hello,''" "map of_char ''Hello''" "map of_char ''hello''"
      "map of_char ''hello''" "\<lambda>s. s"
      "[\<lparr>item_id = map of_char ''a1'', item_name = map of_char ''hello World'', item_url = []\<rparr>]"]
  have p: "set [0x22] \<subseteq> set punctuation" "set [0x2C] \<subseteq> set punctuation"
    by (simp_all add: punctuation_def)
  have n: "normalize_word (map of_char ''Hello,'') = Inr (map of_char ''Hello'')"
    "normalize_word (map of_char ''hello'') = Inr (map of_char ''hello'')"
    by (simp_all add: normalize_word_def py_strip_def punctuation_def first_token_def py_split_def
        is_space_def)
  have l: "py_lower (\<lambda>s. s) (map of_char ''Hello'') = py_lower (\<lambda>s. s) (map of_char ''hello'')"
    by (simp add: py_lower_def ascii_lower_def)
  have e: "map of_char ''\"Hello,'' = [0x22] @ map of_char ''Hello'' @ [0x2C :: nat]"
    by simp
  from t [THEN conjunct1, rule_format, OF p] t [THEN conjunct2, rule_format, OF n l]
  show ?thesis by (simp only: e) 
qed

text \<open>
  Claim C9. If the first resolution of a word from an empty cache returns a song, it
  sent one query to the search collaborator and stored all the candidates the
  comprehension kept under the normalized word; a second resolution of the same word
  then returns one of these candidates and sends no query, so that exactly one query
  was sent in all.
\<close>

theorem resolver_second_resolution_from_cache:
  assumes "get_song_from_first_word ulower sp rnd
             \<lparr>cache = Map.empty, rng = k, searches = []\<rparr> word = Inr (Some s, st1)"
  shows "\<exists>w items songs.
           normalize_word word = Inr w
         \<and> sp 0 (search_query w) = Some items \<and> matching_songs ulower items w = Inr songs
         \<and> s \<in> set songs \<and> searches st1 = [search_query w] \<and> cache st1 = [w \<mapsto> songs]
         \<and> (\<exists>s2 st2. get_song_from_first_word ulower sp rnd st1 word = Inr (Some s2, st2)
               \<and> s2 \<in> set songs \<and> searches st2 = [search_query w] \<and> cache st2 = cache st1)"
proof -
  from assms obtain w where w: "normalize_word word = Inr w"
    by (auto simp: get_song_from_first_word_def split: sum.splits)
  from assms w obtain items where items: "sp 0 (search_query w) = Some items"
    by (auto simp: get_song_from_first_word_def Let_def split: option.splits)
  from assms w items obtain songs where songs: "matching_songs ulower items w = Inr songs"
    by (auto simp: get_song_from_first_word_def Let_def split: sum.splits)
  from assms w items songs have ne: "songs \<noteq> []"
    by (auto simp: get_song_from_first_word_def Let_def split: if_splits)
  from assms w items songs ne have s: "random_choice rnd k songs = Inr s"
    and st1: "st1 = \<lparr>cache = [w \<mapsto> songs], rng = Suc k, searches = [search_query w]\<rparr>"
    by (auto simp: get_song_from_first_word_def Let_def split: sum.splits)
  from ne obtain c cs where cs: "songs = c # cs" by (cases songs) auto
  from ne obtain s2 where s2: "random_choice rnd (Suc k) songs = Inr s2"
    by (auto simp: random_choice_def)
  have second: "get_song_from_first_word ulower sp rnd st1 word
        = Inr (Some s2, st1\<lparr>rng := Suc (Suc k)\<rparr>)"
    using s2 by (simp add: get_song_from_first_word_def w st1 cs)
  show ?thesis
    using w items songs random_choice_mem [OF s] random_choice_mem [OF s2] second
    by (intro exI [of _ w] exI [of _ items] exI [of _ songs]) (simp add: st1)
qed

text \<open>
  The word \<open>Hello,\<close> against a collaborator that answers every query with the tracks
  \<open>hello World\<close>, \<open>Help Me\<close> and \<open>Hello, Goodbye\<close>.
\<close>

theorem resolver_second_resolution_from_cache_witness:
  "\<exists>s st1 s2 st2.
     get_song_from_first_word (\<lambda>s. s)
       (\<lambda>n q. Some [\<lparr>item_id = map of_char ''a1'', item_name = map of_char ''hello World'', item_url = []\<rparr>,
                     \<lparr>item_id = map of_char ''b2'', item_name = map of_char ''Help Me'', item_url = []\<rparr>,
                     \<lparr>item_id = map of_char ''c3'', item_name = map of_char ''Hello, Goodbye'', item_url = []\<rparr>])
       (\<lambda>k. k) \<lparr>cache = Map.empty, rng = 0, searches = []\<rparr> (map of_char ''Hello,'')
     = Inr (Some s, st1)
   \<and> get_song_from_first_word (\<lambda>s. s)
       (\<lambda>n q. Some [\<lparr>item_id = map of_char ''a1'', item_name = map of_char ''hello World'', item_url = []\<rparr>,
                     \<lparr>item_id = map of_char ''b2'', item_name = map of_char ''Help Me'', item_url = []\<rparr>,
                     \<lparr>item_id = map of_char ''c3'', item_name = map of_char ''Hello, Goodbye'', item_url = []\<rparr>])
       (\<lambda>k. k) st1 (map of_char ''Hello,'')
     = Inr (Some s2, st2)
   \<and> length (searches st2) = 1"
proof -
  let ?sp = "\<lambda>(n::nat) (q::pystr).
     Some [\<lparr>item_id = map of_char ''a1'', item_name = map of_char ''hello World'', item_url = []\<rparr>,
           \<lparr>item_id = map of_char ''b2'', item_name = map of_char ''Help Me'', item_url = []\<rparr>,
           \<lparr>item_id = map of_char ''c3'', item_name = map of_char ''Hello, Goodbye'', item_url = []\<rparr>]"
  have "\<exists>s st1. get_song_from_first_word (\<lambda>s. s) ?sp (\<lambda>k. k)
       \<lparr>cache = Map.empty, rng = 0, searches = []\<rparr> (map of_char ''Hello,'') = Inr (Some s, st1)"
    by (simp add: get_song_from_first_word_def normalize_word_def py_strip_def punctuation_def
        first_token_def py_split_def is_space_def search_query_def py_lower_def ascii_lower_def
        random_choice_def Let_def)
  then obtain s st1 where first: "get_song_from_first_word (\<lambda>s. s) ?sp (\<lambda>k. k)
       \<lparr>cache = Map.empty, rng = 0, searches = []\<rparr> (map of_char ''Hello,'') = Inr (Some s, st1)"
    by blast
  from resolver_second_resolution_from_cache [OF first]
  obtain s2 st2 w where "get_song_from_first_word (\<lambda>s. s) ?sp (\<lambda>k. k) st1 (map of_char ''Hello,'')
       = Inr (Some s2, st2)" "searches st2 = [search_query w]"
    by blast
  with first show ?thesis
    by (intro exI [of _ s] exI [of _ st1] exI [of _ s2] exI [of _ st2]) simp
qed

section \<open>Claims about both encoders\<close>

lemma first_word_encoding_loop_extends:
  assumes "first_word_encoding_loop ulower sp rnd st ws acc = Inr (songs, st')"
  shows "\<exists>new. songs = acc @ new"
proof (cases "first_word_encoding_loop ulower sp rnd st ws []")
  case (Inl e)
  with assms first_word_encoding_loop_acc [of ulower sp rnd st ws acc] show ?thesis by simp
next
  case (Inr p)
  with assms first_word_encoding_loop_acc [of ulower sp rnd st ws acc] show ?thesis
    by (cases p) auto
qed

lemma first_word_encoding_loop_nth:
  assumes run: "first_word_encoding_loop ulower sp rnd st ws [] = Inr (songs, st')"
    and n: "n < length ws"
  shows "\<exists>sa sb. first_word_encoding_loop ulower sp rnd st (take n ws) [] = Inr (take n songs, sa)
           \<and> get_song_from_first_word ulower sp rnd sa (py_strip_ws (ws ! n))
               = Inr (Some (songs ! n), sb)"
proof -
  from n have ws: "ws = take n ws @ (ws ! n # drop (Suc n) ws)"
    by (simp add: id_take_nth_drop)
  from run have "first_word_encoding_loop ulower sp rnd st (take n ws @ (ws ! n # drop (Suc n) ws)) []
        = Inr (songs, st')"
    using ws by simp
  then obtain s1 sa where pre: "first_word_encoding_loop ulower sp rnd st (take n ws) [] = Inr (s1, sa)"
    and rest: "first_word_encoding_loop ulower sp rnd sa (ws ! n # drop (Suc n) ws) s1 = Inr (songs, st')"
    by (auto simp: first_word_encoding_loop_append split: sum.splits prod.splits)
  from first_word_encoding_loop_length [OF pre] n have l: "length s1 = n" by simp
  from rest obtain s sb where
    r: "get_song_from_first_word ulower sp rnd sa (py_strip_ws (ws ! n)) = Inr (Some s, sb)"
    and tl: "first_word_encoding_loop ulower sp rnd sb (drop (Suc n) ws) (s1 @ [s]) = Inr (songs, st')"
    by (auto split: sum.splits option.splits prod.splits)
  from first_word_encoding_loop_extends [OF tl] obtain new where "songs = (s1 @ [s]) @ new"
    by blast
  with l have "take n songs = s1" "songs ! n = s" by (simp_all add: nth_append)
  with pre r show ?thesis by blast
qed

lemma hex_encoding_loop_no_match:
  assumes "\<forall>b \<in> set pre. \<exists>ms. matched_songs dataset i j b = Inr ms \<and> ms \<noteq> []"
    and "matched_songs dataset i j byte = Inr []"
  shows "hex_encoding_loop dataset rnd k i j (pre @ byte # post) acc = Inl (NoSongsForByte byte)"
  using assms(1)
proof (induction pre arbitrary: k acc)
  case Nil
  with assms(2) show ?case by simp
next
  case (Cons b pre)
  then obtain ms where ms: "matched_songs dataset i j b = Inr ms" "ms \<noteq> []" by auto
  then have "random_choice rnd k ms = Inr (ms ! (rnd k mod length ms))"
    by (simp add: random_choice_def)
  with ms Cons show ?case by simp
qed

text \<open>
  What both encoders guarantee. An encode returns either an exception and no playlist,
  or a playlist with one song for each word or byte, in source order: song \<open>n\<close> is what
  the resolver returned for word \<open>n\<close> after the words before it, and a song of the hex
  encoder carries its byte at the two indices. When the words or bytes in front were
  resolved and the resolver returns \<open>None\<close> for a word, or no dataset row matches a
  byte, the exception is the one that names that word or byte.
\<close>

lemma encode_all_or_nothing:
  "(get_first_word_encoding_songs ulower sp rnd st message = Inr (songs, st') \<longrightarrow>
      length songs = length (py_split message)
      \<and> (\<forall>n < length songs. \<exists>sa sb.
            first_word_encoding_loop ulower sp rnd st (take n (py_split message)) []
              = Inr (take n songs, sa)
            \<and> get_song_from_first_word ulower sp rnd sa (py_strip_ws (py_split message ! n))
              = Inr (Some (songs ! n), sb)))
   \<and> (py_split message = pre @ word # post \<longrightarrow>
      first_word_encoding_loop ulower sp rnd st pre [] = Inr (found, sa) \<longrightarrow>
      get_song_from_first_word ulower sp rnd sa (py_strip_ws word) = Inr (None, sb) \<longrightarrow>
      get_first_word_encoding_songs ulower sp rnd st message = Inl (NoSongsForWord word))
   \<and> (get_hex_encoding_songs dataset rnd k msg i j = Inr hsongs \<longrightarrow>
      (\<exists>bs. utf8_encode msg = Inr bs
          \<and> list_all2 (carries i j)
               (map (\<lambda>b. [hex_digit (b div 16), hex_digit (b mod 16)]) bs) hsongs))
   \<and> (utf8_encode msg = Inr bytes \<longrightarrow>
      hex_chunks (bytes_hex bytes) = hpre @ byte # hpost \<longrightarrow>
      (\<forall>b \<in> set hpre. \<exists>ms. matched_songs dataset i j b = Inr ms \<and> ms \<noteq> []) \<longrightarrow>
      matched_songs dataset i j byte = Inr [] \<longrightarrow>
      get_hex_encoding_songs dataset rnd k msg i j = Inl (NoSongsForByte byte))"
proof (intro conjI impI)
  assume run: "get_first_word_encoding_songs ulower sp rnd st message = Inr (songs, st')"
  then have loop: "first_word_encoding_loop ulower sp rnd st (py_split message) [] = Inr (songs, st')"
    by (simp add: get_first_word_encoding_songs_def)
  from first_word_encoding_loop_length [OF loop]
  show len: "length songs = length (py_split message)" by simp
  show "\<forall>n < length songs. \<exists>sa sb.
            first_word_encoding_loop ulower sp rnd st (take n (py_split message)) []
              = Inr (take n songs, sa)
            \<and> get_song_from_first_word ulower sp rnd sa (py_strip_ws (py_split message ! n))
              = Inr (Some (songs ! n), sb)"
    using first_word_encoding_loop_nth [OF loop] len by simp
next
  assume "py_split message = pre @ word # post"
    "first_word_encoding_loop ulower sp rnd st pre [] = Inr (found, sa)"
    "get_song_from_first_word ulower sp rnd sa (py_strip_ws word) = Inr (None, sb)"
  then show "get_first_word_encoding_songs ulower sp rnd st message = Inl (NoSongsForWord word)"
    by (simp add: get_first_word_encoding_songs_def first_word_encoding_loop_append)
next
  assume "get_hex_encoding_songs dataset rnd k msg i j = Inr hsongs"
  then obtain bs where bs: "utf8_encode msg = Inr bs"
    and loop: "hex_encoding_loop dataset rnd k i j (hex_chunks (bytes_hex bs)) [] = Inr hsongs"
    by (auto simp: get_hex_encoding_songs_def split: sum.splits)
  have "\<forall>ch \<in> set (hex_chunks (bytes_hex bs)). length ch = 2"
    by (auto simp: hex_chunks_bytes_hex)
  from hex_encoding_loop_carries [OF loop this] bs
  show "\<exists>bs. utf8_encode msg = Inr bs
          \<and> list_all2 (carries i j)
               (map (\<lambda>b. [hex_digit (b div 16), hex_digit (b mod 16)]) bs) hsongs"
    by (auto simp: hex_chunks_bytes_hex)
next
  assume "utf8_encode msg = Inr bytes" "hex_chunks (bytes_hex bytes) = hpre @ byte # hpost"
    "\<forall>b \<in> set hpre. \<exists>ms. matched_songs dataset i j b = Inr ms \<and> ms \<noteq> []"
    "matched_songs dataset i j byte = Inr []"
  then show "get_hex_encoding_songs dataset rnd k msg i j = Inl (NoSongsForByte byte)"
    by (simp add: get_hex_encoding_songs_def hex_encoding_loop_no_match)
qed

text \<open>
  The message \<open>Go Nowhere\<close> against a collaborator that only knows \<open>Go Get It\<close>, and the
  message \<open>Hi\<close> against a dataset whose only row carries \<open>48\<close>.
\<close>

lemma encode_all_or_nothing_example:
  "get_first_word_encoding_songs (\<lambda>s. s)
       (\<lambda>n q. if q = search_query (map of_char ''Go'')
              then Some [\<lparr>item_id = map of_char ''a1'', item_name = map of_char ''Go Get It'',
                          item_url = []\<rparr>]
              else None)
       (\<lambda>k. 0) \<lparr>cache = Map.empty, rng = 0, searches = []\<rparr> (map of_char ''Go Nowhere'')
     = Inl (NoSongsForWord (map of_char ''Nowhere''))
   \<and> get_hex_encoding_songs
       [\<lparr>row_track_id = map of_char ''aaaaa4aa8'', row_track_name = map of_char ''A''\<rparr>]
       (\<lambda>k. 0) 0 (map of_char ''Hi'') 5 8
     = Inl (NoSongsForByte (map of_char ''69''))"
proof -
  let ?sp = "\<lambda>(n::nat) q. if q = search_query (map of_char ''Go'')
              then Some [\<lparr>item_id = map of_char ''a1'', item_name = map of_char ''Go Get It'',
                          item_url = []\<rparr>]
              else None"
  let ?ds = "[\<lparr>row_track_id = map of_char ''aaaaa4aa8'', row_track_name = map of_char ''A''\<rparr>]"
  have sp: "py_split (map of_char ''Go Nowhere'') = [map of_char ''Go''] @ map of_char ''Nowhere'' # []"
    by (simp add: py_split_def is_space_def)
  have "\<exists>found sa sb.
      first_word_encoding_loop (\<lambda>s. s) ?sp (\<lambda>k. 0) \<lparr>cache = Map.empty, rng = 0, searches = []\<rparr>
        [map of_char ''Go''] [] = Inr (found, sa)
      \<and> get_song_from_first_word (\<lambda>s. s) ?sp (\<lambda>k. 0) sa (py_strip_ws (map of_char ''Nowhere''))
        = Inr (None, sb)"
    by (simp add: get_song_from_first_word_def normalize_word_def py_strip_def py_strip_ws_def
        punctuation_def first_token_def py_split_def is_space_def search_query_def py_lower_def
        ascii_lower_def random_choice_def Let_def)
  then obtain found sa sb where
    loop: "first_word_encoding_loop (\<lambda>s. s) ?sp (\<lambda>k. 0) \<lparr>cache = Map.empty, rng = 0, searches = []\<rparr>
        [map of_char ''Go''] [] = Inr (found, sa)"
    and none: "get_song_from_first_word (\<lambda>s. s) ?sp (\<lambda>k. 0) sa (py_strip_ws (map of_char ''Nowhere''))
        = Inr (None, sb)"
    by blast
  have u: "utf8_encode (map of_char ''Hi'') = Inr [72, 105]"
    by (simp add: utf8_encode_char_def)
  have c: "hex_chunks (bytes_hex [72, 105]) = [map of_char ''48''] @ map of_char ''69'' # []"
    by (simp add: bytes_hex_def hex_digit_def)
  have m: "\<forall>b \<in> set [map of_char ''48'' :: pystr]. \<exists>ms. matched_songs ?ds 5 8 b = Inr ms \<and> ms \<noteq> []"
    by (simp add: row_matches_def py_index_def)
  have n: "matched_songs ?ds 5 8 (map of_char ''69'') = Inr []"
    by (simp add: row_matches_def py_index_def)
  note t = encode_all_or_nothing
  from t [THEN conjunct2, THEN conjunct1, rule_format, OF sp loop none]
    t [THEN conjunct2, THEN conjunct2, THEN conjunct2, rule_format, OF u c m [rule_format] n]
  show ?thesis by (intro conjI)
qed

text \<open>
  Claim C8 says that for every message an encode either fails with the exception that
  names the word or byte without a song, or returns one song for each word or byte.
  The message \<open>...\<close> is one word and no song is found for it; line 108 of sender.py
  would raise the exception that names it, but line 64 raises \<open>IndexError\<close> first, on
  the word stripped to the empty string. The first-word encoder so ends with neither
  the naming exception nor a song list.
\<close>

theorem encode_punctuation_word_raises_index_error:
  "get_first_word_encoding_songs (\<lambda>s. s) (\<lambda>n q. None) (\<lambda>k. 0)
     \<lparr>cache = Map.empty, rng = 0, searches = []\<rparr> (map of_char ''...'') = Inl IndexError
   \<and> get_first_word_encoding_songs (\<lambda>s. s) (\<lambda>n q. None) (\<lambda>k. 0)
     \<lparr>cache = Map.empty, rng = 0, searches = []\<rparr> (map of_char ''...'')
     \<noteq> Inl (NoSongsForWord (map of_char ''...''))"
  by (simp add: get_first_word_encoding_songs_def py_split_def is_space_def
      get_song_from_first_word_def normalize_word_def py_strip_def py_strip_ws_def
      punctuation_def first_token_def)

section \<open>The first-word round trip\<close>

text \<open>
  Claim C2. The hypothesis is on the resolver: whenever \<open>get_song_from_first_word\<close>,
  called for a word of the message in the state that the words before it left behind,
  returns a song, the leading word of that song's name is the requested word. Under it,
  when the first-word encoder returns a song list for the message, the first-word
  decoder returns the words of the message joined by single spaces, and splitting that
  text gives the word sequence of the message again. A word that is a leading word has
  no punctuation at its ends, so the restriction of the claim to punctuation-free words
  is contained in the hypothesis; the empty message is covered too.
\<close>

theorem first_word_decode_encode_roundtrip:
  assumes enc: "get_first_word_encoding_songs ulower sp rnd st message = Inr (songs, st')"
    and resolver: "\<forall>n found sa s sb. n < length (py_split message) \<longrightarrow>
        first_word_encoding_loop ulower sp rnd st (take n (py_split message)) [] = Inr (found, sa) \<longrightarrow>
        get_song_from_first_word ulower sp rnd sa (py_strip_ws (py_split message ! n))
          = Inr (Some s, sb) \<longrightarrow>
        leading_word (name s) = Inr (py_split message ! n)"
  shows "decode_first_word_encoding songs = Inr (py_join [0x20] (py_split message))
       \<and> py_split (py_join [0x20] (py_split message)) = py_split message"
proof -
  from enc have loop:
    "first_word_encoding_loop ulower sp rnd st (py_split message) [] = Inr (songs, st')"
    by (simp add: get_first_word_encoding_songs_def)
  from first_word_encoding_loop_length [OF loop]
  have len: "length songs = length (py_split message)" by simp
  have "list_all2 (\<lambda>w s. leading_word (name s) = Inr w \<and> w \<noteq> []) (py_split message) songs"
    unfolding list_all2_conv_all_nth
  proof (intro conjI allI impI)
    show "length (py_split message) = length songs" using len by simp
  next
    fix n assume n: "n < length (py_split message)"
    from first_word_encoding_loop_nth [OF loop n] obtain sa sb where
      "first_word_encoding_loop ulower sp rnd st (take n (py_split message)) []
         = Inr (take n songs, sa)"
      "get_song_from_first_word ulower sp rnd sa (py_strip_ws (py_split message ! n))
         = Inr (Some (songs ! n), sb)"
      by blast
    with resolver n show "leading_word (name (songs ! n)) = Inr (py_split message ! n)"
      by blast
    from n have "py_split message ! n \<in> set (py_split message)" by simp
    then show "py_split message ! n \<noteq> []" by (auto dest: py_split_tokens)
  qed
  from decode_first_word_loop_leading [OF this, of "[]"]
  show ?thesis
    by (simp add: decode_first_word_encoding_def py_split_join_tokens)
qed

text \<open>
  The message \<open>Go Now\<close> against a search collaborator that knows the two tracks
  \<open>Go Get It\<close> and \<open>Now or Never\<close>, from an empty cache.
\<close>

theorem first_word_decode_encode_roundtrip_witness:
  "(\<exists>st'. get_first_word_encoding_songs (\<lambda>s. s)
       (\<lambda>n q. if q = search_query (map of_char ''Go'')
              then Some [\<lparr>item_id = map of_char ''a1'', item_name = map of_char ''Go Get It'',
                          item_url = []\<rparr>]
              else if q = search_query (map of_char ''Now'')
              then Some [\<lparr>item_id = map of_char ''b2'', item_name = map of_char ''Now or Never'',
                          item_url = []\<rparr>]
              else None)
       (\<lambda>k. 0) \<lparr>cache = Map.empty, rng = 0, searches = []\<rparr> (map of_char ''Go Now'')
     = Inr ([\<lparr>track_id = map of_char ''a1'', name = map of_char ''Go Get It'', spotify_url = []\<rparr>,
             \<lparr>track_id = map of_char ''b2'', name = map of_char ''Now or Never'', spotify_url = []\<rparr>],
            st'))
   \<and> decode_first_word_encoding
       [\<lparr>track_id = map of_char ''a1'', name = map of_char ''Go Get It'', spotify_url = []\<rparr>,
        \<lparr>track_id = map of_char ''b2'', name = map of_char ''Now or Never'', spotify_url = []\<rparr>]
     = Inr (map of_char ''Go Now'')"
proof -
  let ?sp = "\<lambda>(n::nat) q. if q = search_query (map of_char ''Go'')
              then Some [\<lparr>item_id = map of_char ''a1'', item_name = map of_char ''Go Get It'',
                          item_url = []\<rparr>]
              else if q = search_query (map of_char ''Now'')
              then Some [\<lparr>item_id = map of_char ''b2'', item_name = map of_char ''Now or Never'',
                          item_url = []\<rparr>]
              else None"
  let ?go = "\<lparr>track_id = map of_char ''a1'', name = map of_char ''Go Get It'', spotify_url = []\<rparr>"
  let ?now = "\<lparr>track_id = map of_char ''b2'', name = map of_char ''Now or Never'', spotify_url = []\<rparr>"
  let ?st0 = "\<lparr>cache = Map.empty, rng = 0, searches = []\<rparr>"
  let ?st1 = "\<lparr>cache = [map of_char ''Go'' \<mapsto> [?go]], rng = Suc 0,
               searches = [search_query (map of_char ''Go'')]\<rparr>"
  note defs = get_song_from_first_word_def normalize_word_def py_strip_def py_strip_ws_def
    punctuation_def first_token_def py_split_def is_space_def search_query_def py_lower_def
    ascii_lower_def random_choice_def Let_def
  have sp: "py_split (map of_char ''Go Now'') = [map of_char ''Go'', map of_char ''Now'']"
    by (simp add: py_split_def is_space_def)
  have r0: "get_song_from_first_word (\<lambda>s. s) ?sp (\<lambda>k. 0) ?st0 (py_strip_ws (map of_char ''Go''))
        = Inr (Some ?go, ?st1)"
    by (simp add: defs)
  have r1: "\<exists>sb. get_song_from_first_word (\<lambda>s. s) ?sp (\<lambda>k. 0) ?st1 (py_strip_ws (map of_char ''Now''))
        = Inr (Some ?now, sb)"
    by (simp add: defs)
  have l1: "first_word_encoding_loop (\<lambda>s. s) ?sp (\<lambda>k. 0) ?st0 [map of_char ''Go''] []
        = Inr ([?go], ?st1)"
    by (simp only: first_word_encoding_loop.simps r0 sum.case prod.case option.case append_Nil)
  have e: "\<exists>st'. get_first_word_encoding_songs (\<lambda>s. s) ?sp (\<lambda>k. 0) ?st0 (map of_char ''Go Now'')
        = Inr ([?go, ?now], st')"
  proof -
    from r1 obtain sb where "get_song_from_first_word (\<lambda>s. s) ?sp (\<lambda>k. 0) ?st1
        (py_strip_ws (map of_char ''Now'')) = Inr (Some ?now, sb)" by blast
    then have "get_first_word_encoding_songs (\<lambda>s. s) ?sp (\<lambda>k. 0) ?st0 (map of_char ''Go Now'')
        = Inr ([?go, ?now], sb)"
      by (simp only: get_first_word_encoding_songs_def sp first_word_encoding_loop.simps r0
          sum.case prod.case option.case append_Nil append_Cons)
    then show ?thesis by blast
  qed
  then obtain st' where enc: "get_first_word_encoding_songs (\<lambda>s. s) ?sp (\<lambda>k. 0) ?st0
        (map of_char ''Go Now'') = Inr ([?go, ?now], st')"
    by blast
  have lg: "leading_word (name ?go) = Inr (map of_char ''Go'')"
    and ln: "leading_word (name ?now) = Inr (map of_char ''Now'')"
    by (simp_all add: leading_word_def first_token_def py_split_def is_space_def py_strip_def
        punctuation_def)
  have res: "\<forall>n found sa s sb. n < length (py_split (map of_char ''Go Now'')) \<longrightarrow>
        first_word_encoding_loop (\<lambda>s. s) ?sp (\<lambda>k. 0) ?st0
          (take n (py_split (map of_char ''Go Now''))) [] = Inr (found, sa) \<longrightarrow>
        get_song_from_first_word (\<lambda>s. s) ?sp (\<lambda>k. 0) sa
          (py_strip_ws (py_split (map of_char ''Go Now'') ! n)) = Inr (Some s, sb) \<longrightarrow>
        leading_word (name s) = Inr (py_split (map of_char ''Go Now'') ! n)"
  proof (intro allI impI)
    fix n found sa s sb
    assume n: "n < length (py_split (map of_char ''Go Now''))"
      and pre: "first_word_encoding_loop (\<lambda>s. s) ?sp (\<lambda>k. 0) ?st0
          (take n (py_split (map of_char ''Go Now''))) [] = Inr (found, sa)"
      and got: "get_song_from_first_word (\<lambda>s. s) ?sp (\<lambda>k. 0) sa
          (py_strip_ws (py_split (map of_char ''Go Now'') ! n)) = Inr (Some s, sb)"
    from n have "n = 0 \<or> n = 1" unfolding sp by auto
    then show "leading_word (name s) = Inr (py_split (map of_char ''Go Now'') ! n)"
    proof
      assume z: "n = 0"
      with pre have "sa = ?st0" by simp
      with got r0 have "s = ?go" unfolding z sp by simp
      with lg show ?thesis unfolding z sp by simp
    next
      assume o: "n = 1"
      with pre l1 have "sa = ?st1" unfolding sp by simp
      with got r1 have "s = ?now" unfolding o sp by auto
      with ln show ?thesis unfolding o sp by simp
    qed
  qed
  have j: "py_join [0x20] (py_split (map of_char ''Go Now'')) = map of_char ''Go Now''"
    by (simp add: py_split_def is_space_def)
  from first_word_decode_encode_roundtrip [OF enc res] e show ?thesis
    by (simp only: j)
qed

end
